theory Spec2Isabelle
  imports Complex_Main "HOL-Library.Word"
begin

unbundle bit_operations_syntax

section \<open>Data model\<close>

text \<open>
  Nodes live in a store indexed by address; a nullable pointer is an \<open>option\<close>.
  Timestamps are C doubles that the engine only stores and compares: a value is either a
  number or NaN, and \<open>dbl_ne\<close> is C's \<open>!=\<close>, which holds whenever an operand is NaN.
\<close>

type_synonym addr = nat

datatype cdouble = Dbl real | NaN

fun dbl_ne :: "cdouble \<Rightarrow> cdouble \<Rightarrow> bool" where
  "dbl_ne (Dbl a) (Dbl b) = (a \<noteq> b)"
| "dbl_ne _ _ = True"

datatype node_state = STATE_UNINITIALIZED | STATE_INITIALIZED | STATE_READY | STATE_IDLE

datatype error = AssertionFailed | MemoryFault

datatype param_type =
    PARAM_TYPE_INT | PARAM_TYPE_I64 | PARAM_TYPE_DBL | PARAM_TYPE_STR | PARAM_TYPE_DATA
  | PARAM_TYPE_VEC2 | PARAM_TYPE_VEC3 | PARAM_TYPE_VEC4 | PARAM_TYPE_MAT4
  | PARAM_TYPE_NODE | PARAM_TYPE_NODELIST | PARAM_TYPE_DBLLIST | PARAM_TYPE_NODEDICT

text \<open>
  One entry of a parameter table (\<open>struct node_param\<close>). A table is a list; the
  terminating \<open>{NULL}\<close> entry is the end of the list, and a \<open>NULL\<close> table reads as the
  empty list (every loop of nodes.c tests \<open>par && par->key\<close>).
\<close>

record node_param =
  key :: string
  par_type :: param_type
  offset :: nat

text \<open>
  What a typed read at an offset of a parameter block yields: a node pointer
  (\<open>*(struct ngl_node **)(base_ptr + offset)\<close>), a node list (\<open>elems[0..nb_elems)\<close>), or
  a dictionary, \<open>NULL\<close> or its entries in the order \<open>ngli_hmap_next\<close> yields them.
\<close>

record node_fields =
  node_at :: "nat \<Rightarrow> addr option"
  nodelist_at :: "nat \<Rightarrow> addr list"
  nodedict_at :: "nat \<Rightarrow> (string \<times> addr) list option"

text \<open>
  The private data of a state-override node (\<open>struct glstate\<close> as nodes.c reads it):
  every \<open>x[2]\<close> is a pair, \<open>x[0]\<close> the configured value and \<open>x[1]\<close> the value saved
  from the driver.
\<close>

type_synonym rgba = "int \<times> int \<times> int \<times> int"

record glstate =
  capability :: int
  enabled :: "int \<times> int"
  src_rgb :: "int \<times> int"
  dst_rgb :: "int \<times> int"
  src_alpha :: "int \<times> int"
  dst_alpha :: "int \<times> int"
  mode_rgb :: "int \<times> int"
  mode_alpha :: "int \<times> int"
  rgba :: "rgba \<times> rgba"
  mode :: "int \<times> int"
  writemask :: "int \<times> int"
  func :: "int \<times> int"
  func_ref :: "int \<times> int"
  func_mask :: "int \<times> int"
  op_sfail :: "int \<times> int"
  op_dpfail :: "int \<times> int"
  op_dppass :: "int \<times> int"

text \<open>
  The private data block of a node, read three ways: the node-typed field at an offset,
  the byte at an offset, and the \<open>int\<close> at an offset (a \<open>struct glstate\<close> is a block of
  such). The three readings are kept side by side; \<open>memset\<close> clears a field in each of
  them.
\<close>

record priv_data =
  flds :: node_fields
  bytes :: "nat \<Rightarrow> 8 word"
  ints :: "nat \<Rightarrow> int"

text \<open>
  The driver state that the state overrides read and write.
\<close>

record gl_driver =
  caps :: "int \<Rightarrow> bool"
  blend_src_rgb :: int
  blend_dst_rgb :: int
  blend_src_alpha :: int
  blend_dst_alpha :: int
  blend_equation_rgb :: int
  blend_equation_alpha :: int
  color_writemask :: rgba
  polygon_mode :: int
  stencil_writemask :: int
  stencil_func :: int
  stencil_ref :: int
  stencil_value_mask :: int
  stencil_fail :: int
  stencil_pass_depth_fail :: int
  stencil_pass_depth_pass :: int

text \<open>
  A node class (\<open>struct node_class\<close>). The callbacks are parameters of the model: each
  works on the private data of the node it is called on and returns the status code of
  the C callback (\<open>release\<close>, \<open>uninit\<close> and \<open>draw\<close> return nothing). \<open>draw\<close> also works on
  the driver. A custom \<open>visit\<close> gets the parent's activity (when there is a parent) and
  the time, and works on the node's activity, visit stamp and private data.
\<close>

record node_class =
  class_id :: nat
  params :: "node_param list"
  priv_size :: nat
  init :: "(priv_data \<Rightarrow> int \<times> priv_data) option"
  prefetch :: "(priv_data \<Rightarrow> int \<times> priv_data) option"
  release :: "(priv_data \<Rightarrow> priv_data) option"
  uninit :: "(priv_data \<Rightarrow> priv_data) option"
  update :: "(cdouble \<Rightarrow> priv_data \<Rightarrow> int \<times> priv_data) option"
  draw :: "(priv_data \<Rightarrow> gl_driver \<Rightarrow> priv_data \<times> gl_driver) option"
  visit :: "(int option \<Rightarrow> cdouble \<Rightarrow> int \<times> cdouble \<times> priv_data
             \<Rightarrow> int \<times> int \<times> cdouble \<times> priv_data) option"

text \<open>
  The node structure. \<open>refcount\<close> is a C \<open>int\<close>: 32 bits in two's complement, read
  with \<open>sint\<close>; \<open>+\<close> and \<open>-\<close> wrap around.
\<close>

record ngl_node =
  cls :: node_class
  ctx :: "nat option"
  refcount :: "32 word"
  state :: node_state
  is_active :: int
  visit_time :: cdouble
  last_update_time :: cdouble
  glstates :: "addr list"
  name :: string
  priv :: priv_data

text \<open>
  The lines the code writes with \<open>LOG\<close>. Each lifecycle callback is called right after
  its line, so the log also counts the calls.
\<close>

datatype log_line =
    LOG_INIT addr | LOG_PREFETCH addr | LOG_RELEASE addr | LOG_UNINIT addr
  | LOG_UPDATE addr cdouble | LOG_SKIP addr cdouble | LOG_DRAW addr | LOG_DELETE addr
  | LOG_CTX_CONFLICT addr | LOG_PARAM_NOT_FOUND addr string
  | LOG_SET_FAILED addr string | LOG_ADD_FAILED addr string

record world =
  heap :: "addr \<Rightarrow> ngl_node"
  gl :: gl_driver
  log :: "log_line list"
  freed :: "addr list"

definition upd :: "world \<Rightarrow> addr \<Rightarrow> (ngl_node \<Rightarrow> ngl_node) \<Rightarrow> world" where
  "upd w p f = w\<lparr>heap := (heap w)(p := f (heap w p))\<rparr>"

definition LOG :: "log_line \<Rightarrow> world \<Rightarrow> world" where
  "LOG l w = w\<lparr>log := log w @ [l]\<rparr>"

text \<open>
  A call of the engine ends in three ways: it does not return (\<open>None\<close>: the recursion is
  deeper than the fuel), it aborts on a failed \<open>ngli_assert\<close> or on a read through a
  null pointer (\<open>Inl\<close>), or it returns a status code and leaves a world.
\<close>

type_synonym res = "(error + int \<times> world) option"

definition ret :: "int \<Rightarrow> world \<Rightarrow> res" where
  "ret r w = Some (Inr (r, w))"

text \<open>The idiom \<^verbatim>\<open>ret = f(...); if (ret < 0) return ret;\<close> followed by the rest.\<close>

definition then_ok :: "res \<Rightarrow> (world \<Rightarrow> res) \<Rightarrow> res" where
  "then_ok r k =
     (case r of
        None \<Rightarrow> None
      | Some (Inl e) \<Rightarrow> Some (Inl e)
      | Some (Inr (rc, w)) \<Rightarrow> if rc < 0 then Some (Inr (rc, w)) else k w)"

text \<open>A loop over node pointers that returns at the first negative status.\<close>

fun for_nodes :: "(world \<Rightarrow> addr \<Rightarrow> res) \<Rightarrow> world \<Rightarrow> addr list \<Rightarrow> res" where
  "for_nodes f w [] = ret 0 w"
| "for_nodes f w (c # cs) = then_ok (f w c) (\<lambda>w1. for_nodes f w1 cs)"

text \<open>
  The walk over a parameter table that \<open>ngli_node_visit\<close>,
  \<open>ngli_node_honor_release_prefetch\<close> and \<open>node_set_children_ctx\<close> each spell out: a
  non-null single node, every element of a node list, every entry of a non-null
  dictionary; other parameter types are skipped. \<open>rd\<close> reads the fields of the block
  at \<open>base_ptr\<close> from the current memory when the walk reaches the parameter.
\<close>

fun for_params ::
  "(world \<Rightarrow> addr \<Rightarrow> res) \<Rightarrow> (world \<Rightarrow> node_fields) \<Rightarrow> world \<Rightarrow> node_param list \<Rightarrow> res" where
  "for_params f rd w [] = ret 0 w"
| "for_params f rd w (par # pars) =
     then_ok
       (case par_type par of
          PARAM_TYPE_NODE \<Rightarrow>
            (case node_at (rd w) (offset par) of
               None \<Rightarrow> ret 0 w
             | Some child \<Rightarrow> f w child)
        | PARAM_TYPE_NODELIST \<Rightarrow> for_nodes f w (nodelist_at (rd w) (offset par))
        | PARAM_TYPE_NODEDICT \<Rightarrow>
            (case nodedict_at (rd w) (offset par) of
               None \<Rightarrow> ret 0 w
             | Some entries \<Rightarrow> for_nodes f w (map snd entries))
        | _ \<Rightarrow> ret 0 w)
       (\<lambda>w1. for_params f rd w1 pars)"


section \<open>Walks, as the specification words them\<close>





section \<open>Lifecycle\<close>

definition node_release :: "world \<Rightarrow> addr \<Rightarrow> error + world" where
  "node_release w p =
     (let node = heap w p in
      if state node = STATE_IDLE then Inr w
      else if state node \<noteq> STATE_READY then Inr w
      else if ctx node = None then Inl AssertionFailed
      else
        let w1 = (case release (cls node) of
                    None \<Rightarrow> w
                  | Some cb \<Rightarrow> upd (LOG (LOG_RELEASE p) w) p (\<lambda>nd. nd\<lparr>priv := cb (priv nd)\<rparr>))
        in Inr (upd w1 p (\<lambda>nd. nd\<lparr>state := STATE_IDLE\<rparr>)))"

text \<open>
  \<open>ngli_node_init\<close> calls itself on the state-override nodes of the node, which nothing
  keeps from forming a cycle, so it takes fuel: a bound on the depth of the recursion.
\<close>

primrec ngli_node_init :: "nat \<Rightarrow> world \<Rightarrow> addr \<Rightarrow> res" where
  "ngli_node_init 0 w p = None"
| "ngli_node_init (Suc n) w p =
     (if state (heap w p) = STATE_INITIALIZED then ret 0 w
      else if state (heap w p) \<noteq> STATE_UNINITIALIZED then ret 0 w
      else if ctx (heap w p) = None then Some (Inl AssertionFailed)
      else
        then_ok
          (case init (cls (heap w p)) of
             None \<Rightarrow> ret 0 w
           | Some cb \<Rightarrow>
               (case cb (priv (heap w p)) of
                  (rc, pr) \<Rightarrow> ret rc (upd (LOG (LOG_INIT p) w) p (\<lambda>nd. nd\<lparr>priv := pr\<rparr>))))
          (\<lambda>w1. then_ok (for_nodes (ngli_node_init n) w1 (glstates (heap w1 p)))
            (\<lambda>w2. ret 0 (upd w2 p (\<lambda>nd. nd\<lparr>state := STATE_INITIALIZED\<rparr>)))))"

definition node_prefetch :: "nat \<Rightarrow> world \<Rightarrow> addr \<Rightarrow> res" where
  "node_prefetch n w p =
     (if state (heap w p) = STATE_READY then ret 0 w
      else
        then_ok (ngli_node_init n w p)
          (\<lambda>w1. then_ok
            (case prefetch (cls (heap w1 p)) of
               None \<Rightarrow> ret 0 w1
             | Some cb \<Rightarrow>
                 (case cb (priv (heap w1 p)) of
                    (rc, pr) \<Rightarrow>
                      ret rc (upd (LOG (LOG_PREFETCH p) w1) p (\<lambda>nd. nd\<lparr>priv := pr\<rparr>))))
            (\<lambda>w2. ret 0 (upd w2 p (\<lambda>nd. nd\<lparr>state := STATE_READY\<rparr>)))))"

definition ngli_node_update :: "nat \<Rightarrow> world \<Rightarrow> addr \<Rightarrow> cdouble \<Rightarrow> res" where
  "ngli_node_update n w p t =
     then_ok (ngli_node_init n w p)
       (\<lambda>w1. case update (cls (heap w1 p)) of
          None \<Rightarrow> ret 0 w1
        | Some cb \<Rightarrow>
            then_ok
              (if dbl_ne (last_update_time (heap w1 p)) t then
                 then_ok (node_prefetch n w1 p)
                   (\<lambda>w2. case cb t (priv (heap w2 p)) of
                      (rc, pr) \<Rightarrow>
                        ret rc (upd (LOG (LOG_UPDATE p t) w2) p (\<lambda>nd. nd\<lparr>priv := pr\<rparr>)))
               else ret 0 (LOG (LOG_SKIP p t) w1))
              (\<lambda>w3. ret 0 (upd w3 p (\<lambda>nd. nd\<lparr>last_update_time := t\<rparr>))))"

text \<open>
  \<open>ngli_node_honor_release_prefetch\<close>: the visit stamp gates the whole call; the
  children come first, then the node itself.
\<close>

primrec ngli_node_honor_release_prefetch :: "nat \<Rightarrow> world \<Rightarrow> addr \<Rightarrow> cdouble \<Rightarrow> res" where
  "ngli_node_honor_release_prefetch 0 w p t = None"
| "ngli_node_honor_release_prefetch (Suc n) w p t =
     (if dbl_ne (visit_time (heap w p)) t then ret 0 w
      else
        then_ok
          (for_params (\<lambda>w1 child. ngli_node_honor_release_prefetch n w1 child t)
             (\<lambda>w1. flds (priv (heap w1 p))) w (params (cls (heap w p))))
          (\<lambda>w2. if is_active (heap w2 p) \<noteq> 0 then node_prefetch n w2 p
                else (case node_release w2 p of
                        Inl e \<Rightarrow> Some (Inl e)
                      | Inr w3 \<Rightarrow> ret 0 w3)))"

primrec ngli_node_visit :: "nat \<Rightarrow> world \<Rightarrow> addr \<Rightarrow> addr option \<Rightarrow> cdouble \<Rightarrow> res" where
  "ngli_node_visit 0 w p frm t = None"
| "ngli_node_visit (Suc n) w p frm t =
     then_ok (ngli_node_init n w p)
       (\<lambda>w1. case visit (cls (heap w1 p)) of
          Some cb \<Rightarrow>
            (case cb (map_option (\<lambda>f. is_active (heap w1 f)) frm) t
                    (is_active (heap w1 p), visit_time (heap w1 p), priv (heap w1 p)) of
               (rc, a, vt, pr) \<Rightarrow>
                 ret rc (upd w1 p (\<lambda>nd. nd\<lparr>is_active := a, visit_time := vt, priv := pr\<rparr>)))
        | None \<Rightarrow>
            then_ok
              (for_params (\<lambda>w2 child. ngli_node_visit n w2 child (Some p) t)
                 (\<lambda>w2. flds (priv (heap w2 p)))
                 (upd w1 p (\<lambda>nd. nd\<lparr>is_active := (case frm of
                                                      Some f \<Rightarrow> is_active (heap w1 f)
                                                    | None \<Rightarrow> 1),
                                      visit_time := t\<rparr>))
                 (params (cls (heap w1 p))))
              (\<lambda>w3. ret 0 w3))"

section \<open>Uninitialization and parameter changes\<close>

text \<open>
  \<open>opt_sizes\<close>, with the sizes of an LP64 platform (pointers and \<open>int64_t\<close> of 8 bytes,
  \<open>int\<close> and \<open>float\<close> of 4).
\<close>

fun opt_sizes :: "param_type \<Rightarrow> nat" where
  "opt_sizes PARAM_TYPE_INT = 4"
| "opt_sizes PARAM_TYPE_I64 = 8"
| "opt_sizes PARAM_TYPE_DBL = 8"
| "opt_sizes PARAM_TYPE_STR = 8"
| "opt_sizes PARAM_TYPE_DATA = 8 + 4"
| "opt_sizes PARAM_TYPE_VEC2 = 8"
| "opt_sizes PARAM_TYPE_VEC3 = 12"
| "opt_sizes PARAM_TYPE_VEC4 = 16"
| "opt_sizes PARAM_TYPE_MAT4 = 64"
| "opt_sizes PARAM_TYPE_NODE = 8"
| "opt_sizes PARAM_TYPE_NODELIST = 8 + 4"
| "opt_sizes PARAM_TYPE_DBLLIST = 8 + 4"
| "opt_sizes PARAM_TYPE_NODEDICT = 8"

text \<open>
  \<^verbatim>\<open>memset(base_ptr + off, 0, len)\<close> on a private block: a byte in the range is zero, and
  so is every field that lies in the range with all its bytes: a node pointer and a
  dictionary pointer read as \<open>NULL\<close>, a node list as empty, an \<open>int\<close> as 0.
\<close>

definition memset :: "priv_data \<Rightarrow> nat \<Rightarrow> nat \<Rightarrow> priv_data" where
  "memset pr off len =
     \<lparr>flds =
        \<lparr>node_at = (\<lambda>i. if off \<le> i \<and> i + opt_sizes PARAM_TYPE_NODE \<le> off + len then None
                         else node_at (flds pr) i),
         nodelist_at = (\<lambda>i. if off \<le> i \<and> i + opt_sizes PARAM_TYPE_NODELIST \<le> off + len then []
                             else nodelist_at (flds pr) i),
         nodedict_at = (\<lambda>i. if off \<le> i \<and> i + opt_sizes PARAM_TYPE_NODEDICT \<le> off + len then None
                             else nodedict_at (flds pr) i)\<rparr>,
      bytes = (\<lambda>i. if off \<le> i \<and> i + 1 \<le> off + len then 0 else bytes pr i),
      ints = (\<lambda>i. if off \<le> i \<and> i + opt_sizes PARAM_TYPE_INT \<le> off + len then 0
                    else ints pr i)\<rparr>"

text \<open>
  The lengths that \<open>reset_non_params\<close> passes are differences of \<open>size_t\<close> values (64
  bits, unsigned): where the first operand is the smaller one the difference wraps
  around.
\<close>

definition size_t_sub :: "nat \<Rightarrow> nat \<Rightarrow> nat" where
  "size_t_sub a b = (if b \<le> a then a - b else 2 ^ 64 + a - b)"

text \<open>The loop of \<open>reset_non_params\<close>; it returns the block and \<open>cur_offset\<close>.\<close>

fun reset_loop :: "priv_data \<Rightarrow> nat \<Rightarrow> node_param list \<Rightarrow> priv_data \<times> nat" where
  "reset_loop pr cur_offset [] = (pr, cur_offset)"
| "reset_loop pr cur_offset (par # pars) =
     reset_loop
       (if offset par \<noteq> cur_offset
        then memset pr cur_offset (size_t_sub (offset par) cur_offset) else pr)
       (offset par + opt_sizes (par_type par)) pars"

definition reset_non_params :: "world \<Rightarrow> addr \<Rightarrow> world" where
  "reset_non_params w p =
     (case reset_loop (priv (heap w p)) 0 (params (cls (heap w p))) of
        (pr, cur_offset) \<Rightarrow>
          upd w p (\<lambda>nd. nd\<lparr>priv :=
            memset pr cur_offset (size_t_sub (priv_size (cls (heap w p))) cur_offset)\<rparr>))"

definition node_uninit :: "world \<Rightarrow> addr \<Rightarrow> error + world" where
  "node_uninit w p =
     (if state (heap w p) = STATE_UNINITIALIZED then Inr w
      else if ctx (heap w p) = None then Inl AssertionFailed
      else
        (case node_release w p of
           Inl e \<Rightarrow> Inl e
         | Inr w1 \<Rightarrow>
             Inr (upd
                    (reset_non_params
                       (case uninit (cls (heap w1 p)) of
                          None \<Rightarrow> w1
                        | Some cb \<Rightarrow>
                            upd (LOG (LOG_UNINIT p) w1) p (\<lambda>nd. nd\<lparr>priv := cb (priv nd)\<rparr>))
                       p)
                    p (\<lambda>nd. nd\<lparr>state := STATE_UNINITIALIZED\<rparr>))))"

text \<open>
  The two parameters every node has. The offsets stand for \<open>offsetof(struct ngl_node,
  glstates)\<close> and \<open>offsetof(struct ngl_node, name)\<close>; only that they differ matters.
\<close>

definition OFFSET_glstates :: nat where
  "OFFSET_glstates = 64"

definition OFFSET_name :: nat where
  "OFFSET_name = 80"

definition ngli_base_node_params :: "node_param list" where
  "ngli_base_node_params =
     [\<lparr>key = ''glstates'', par_type = PARAM_TYPE_NODELIST, offset = OFFSET_glstates\<rparr>,
      \<lparr>key = ''name'', par_type = PARAM_TYPE_STR, offset = OFFSET_name\<rparr>]"

text \<open>The node-typed fields of the node structure itself: the list \<open>glstates\<close>.\<close>

definition base_fields :: "ngl_node \<Rightarrow> node_fields" where
  "base_fields nd =
     \<lparr>node_at = (\<lambda>off. None),
      nodelist_at = (\<lambda>off. if off = OFFSET_glstates then glstates nd else []),
      nodedict_at = (\<lambda>off. None)\<rparr>"

section \<open>Context attachment\<close>

text \<open>
  \<open>node_set_children_ctx\<close> calls \<open>ngli_node_attach_ctx\<close> on every node of the table;
  the call is the argument \<open>attach\<close>, so that \<open>node_set_ctx\<close> can pass itself.
\<close>

definition node_set_children_ctx ::
  "(world \<Rightarrow> addr \<Rightarrow> res) \<Rightarrow> (world \<Rightarrow> node_fields) \<Rightarrow> world \<Rightarrow> node_param list \<Rightarrow> res" where
  "node_set_children_ctx attach rd w pars = for_params attach rd w pars"

primrec node_set_ctx :: "nat \<Rightarrow> world \<Rightarrow> addr \<Rightarrow> nat option \<Rightarrow> res" where
  "node_set_ctx 0 w p c = None"
| "node_set_ctx (Suc n) w p c =
     (case (case c of
              Some cx \<Rightarrow>
                (case ctx (heap w p) of
                   Some own \<Rightarrow>
                     if own \<noteq> cx then ret (- 1) (LOG (LOG_CTX_CONFLICT p) w)
                     else ret 0 w
                 | None \<Rightarrow> ret 0 (upd w p (\<lambda>nd. nd\<lparr>ctx := Some cx\<rparr>)))
            | None \<Rightarrow>
                (case node_uninit w p of
                   Inl e \<Rightarrow> Some (Inl e)
                 | Inr w1 \<Rightarrow> ret 0 (upd w1 p (\<lambda>nd. nd\<lparr>ctx := None\<rparr>)))) of
        None \<Rightarrow> None
      | Some (Inl e) \<Rightarrow> Some (Inl e)
      | Some (Inr (rc, w1)) \<Rightarrow>
          if rc < 0 then Some (Inr (rc, w1))
          else
            then_ok
              (node_set_children_ctx (\<lambda>w2 child. node_set_ctx n w2 child c)
                 (\<lambda>w2. flds (priv (heap w2 p))) w1 (params (cls (heap w1 p))))
              (\<lambda>w3. then_ok
                 (node_set_children_ctx (\<lambda>w4 child. node_set_ctx n w4 child c)
                    (\<lambda>w4. base_fields (heap w4 p)) w3 ngli_base_node_params)
                 (\<lambda>w5. ret 0 w5)))"

definition ngli_node_attach_ctx :: "nat \<Rightarrow> world \<Rightarrow> addr \<Rightarrow> nat option \<Rightarrow> res" where
  "ngli_node_attach_ctx n w p c = node_set_ctx n w p c"

definition ngli_node_detach_ctx :: "nat \<Rightarrow> world \<Rightarrow> addr \<Rightarrow> (error + world) option" where
  "ngli_node_detach_ctx n w p =
     (case node_set_ctx n w p None of
        None \<Rightarrow> None
      | Some (Inl e) \<Rightarrow> Some (Inl e)
      | Some (Inr (rc, w1)) \<Rightarrow> if rc = 0 then Some (Inr w1) else Some (Inl AssertionFailed))"

section \<open>Reference counting\<close>

definition ngl_node_ref :: "world \<Rightarrow> addr \<Rightarrow> world \<times> addr" where
  "ngl_node_ref w p = (upd w p (\<lambda>nd. nd\<lparr>refcount := refcount nd + 1\<rparr>), p)"

text \<open>
  \<open>ngl_node_unrefp\<close> gets the pointer variable \<open>*nodep\<close> and returns the world and the
  new value of the variable. \<open>ngli_params_free\<close> is not part of nodes.c: it is the
  parameter \<open>params_free\<close>, called first on the node structure (\<open>True\<close>) and then on the
  private data (\<open>False\<close>).
\<close>

definition ngl_node_unrefp ::
  "(bool \<Rightarrow> addr \<Rightarrow> world \<Rightarrow> world) \<Rightarrow> world \<Rightarrow> addr option \<Rightarrow> error + world \<times> addr option" where
  "ngl_node_unrefp params_free w nodep =
     (case nodep of
        None \<Rightarrow> Inr (w, None)
      | Some p \<Rightarrow>
          (let delete = (refcount (heap w p) = 1);
               w1 = upd w p (\<lambda>nd. nd\<lparr>refcount := refcount nd - 1\<rparr>)
           in if delete then
                (if ctx (heap w1 p) \<noteq> None then Inl AssertionFailed
                 else
                   (let w2 = params_free False p (params_free True p (LOG (LOG_DELETE p) w1))
                    in Inr (w2\<lparr>freed := freed w2 @ [p]\<rparr>, None)))
              else Inr (w1, None)))"

text \<open>
  \<open>node_create\<close>: a zeroed block with the fields the function sets (the matrices are
  left out).
\<close>

definition zero_priv :: priv_data where
  "zero_priv =
     \<lparr>flds = \<lparr>node_at = (\<lambda>off. None), nodelist_at = (\<lambda>off. []), nodedict_at = (\<lambda>off. None)\<rparr>,
      bytes = (\<lambda>i. 0), ints = (\<lambda>off. 0)\<rparr>"

definition node_create :: "node_class \<Rightarrow> ngl_node" where
  "node_create c =
     \<lparr>cls = c, ctx = None, refcount = 1, state = STATE_UNINITIALIZED, is_active = 0,
      visit_time = Dbl (- 1), last_update_time = Dbl (- 1), glstates = [], name = [],
      priv = zero_priv\<rparr>"

section \<open>Pipeline state around a draw\<close>

text \<open>
  The driver calls that nodes.c makes, with the meaning OpenGL gives them on the
  tracked values. \<open>glGetIntegerv\<close> of a capability yields 1 or 0; the getters of the
  other values read the field of the driver state.
\<close>

definition glIsEnabledv :: "int \<Rightarrow> gl_driver \<Rightarrow> int" where
  "glIsEnabledv cap g = (if caps g cap then 1 else 0)"

definition glEnable :: "int \<Rightarrow> gl_driver \<Rightarrow> gl_driver" where
  "glEnable cap g = g\<lparr>caps := (caps g)(cap := True)\<rparr>"

definition glDisable :: "int \<Rightarrow> gl_driver \<Rightarrow> gl_driver" where
  "glDisable cap g = g\<lparr>caps := (caps g)(cap := False)\<rparr>"

text \<open>
  A setter that gets a value outside the enumeration OpenGL accepts for the argument
  raises \<open>GL_INVALID_ENUM\<close> and leaves the state as it is.
\<close>

definition blend_factor :: "int \<Rightarrow> bool" where
  "blend_factor f \<longleftrightarrow> f = 0 \<or> f = 1 \<or> (768 \<le> f \<and> f \<le> 776) \<or> (32769 \<le> f \<and> f \<le> 32772)"

definition blend_mode :: "int \<Rightarrow> bool" where
  "blend_mode m \<longleftrightarrow> m = 32774 \<or> m = 32775 \<or> m = 32776 \<or> m = 32778 \<or> m = 32779"

definition stencil_function :: "int \<Rightarrow> bool" where
  "stencil_function f \<longleftrightarrow> 512 \<le> f \<and> f \<le> 519"

definition stencil_operation :: "int \<Rightarrow> bool" where
  "stencil_operation x \<longleftrightarrow>
     x = 0 \<or> x = 7680 \<or> x = 7681 \<or> x = 7682 \<or> x = 7683 \<or> x = 5386 \<or> x = 34055 \<or> x = 34056"

definition polygon_fill :: "int \<Rightarrow> bool" where
  "polygon_fill m \<longleftrightarrow> m = 6912 \<or> m = 6913 \<or> m = 6914"

definition glBlendFuncSeparate :: "int \<Rightarrow> int \<Rightarrow> int \<Rightarrow> int \<Rightarrow> gl_driver \<Rightarrow> gl_driver" where
  "glBlendFuncSeparate srgb drgb sa da g =
     (if blend_factor srgb \<and> blend_factor drgb \<and> blend_factor sa \<and> blend_factor da
      then g\<lparr>blend_src_rgb := srgb, blend_dst_rgb := drgb,
             blend_src_alpha := sa, blend_dst_alpha := da\<rparr>
      else g)"

definition glBlendEquationSeparate :: "int \<Rightarrow> int \<Rightarrow> gl_driver \<Rightarrow> gl_driver" where
  "glBlendEquationSeparate mrgb ma g =
     (if blend_mode mrgb \<and> blend_mode ma
      then g\<lparr>blend_equation_rgb := mrgb, blend_equation_alpha := ma\<rparr>
      else g)"

definition glbool :: "int \<Rightarrow> int" where
  "glbool x = (if x \<noteq> 0 then 1 else 0)"

definition glColorMask :: "int \<Rightarrow> int \<Rightarrow> int \<Rightarrow> int \<Rightarrow> gl_driver \<Rightarrow> gl_driver" where
  "glColorMask r g' b a g = g\<lparr>color_writemask := (glbool r, glbool g', glbool b, glbool a)\<rparr>"

text \<open>\<open>glPolygonMode\<close> is only called with the face \<open>GL_FRONT_AND_BACK\<close>.\<close>

definition glPolygonMode :: "int \<Rightarrow> gl_driver \<Rightarrow> gl_driver" where
  "glPolygonMode m g = (if polygon_fill m then g\<lparr>polygon_mode := m\<rparr> else g)"

definition glStencilMask :: "int \<Rightarrow> gl_driver \<Rightarrow> gl_driver" where
  "glStencilMask m g = g\<lparr>stencil_writemask := m\<rparr>"

definition glStencilFunc :: "int \<Rightarrow> int \<Rightarrow> int \<Rightarrow> gl_driver \<Rightarrow> gl_driver" where
  "glStencilFunc f r m g =
     (if stencil_function f
      then g\<lparr>stencil_func := f, stencil_ref := r, stencil_value_mask := m\<rparr>
      else g)"

definition glStencilOp :: "int \<Rightarrow> int \<Rightarrow> int \<Rightarrow> gl_driver \<Rightarrow> gl_driver" where
  "glStencilOp sf dpf dpp g =
     (if stencil_operation sf \<and> stencil_operation dpf \<and> stencil_operation dpp
      then g\<lparr>stencil_fail := sf, stencil_pass_depth_fail := dpf,
             stencil_pass_depth_pass := dpp\<rparr>
      else g)"

text \<open>
  The class identifiers that \<open>ngli_honor_glstates\<close> tests come from nodegl.h, which is
  not among the sources; only that they differ matters.
\<close>

definition NGL_NODE_GLSTATE :: nat where "NGL_NODE_GLSTATE = 20"
definition NGL_NODE_GLBLENDSTATE :: nat where "NGL_NODE_GLBLENDSTATE = 21"
definition NGL_NODE_GLCOLORSTATE :: nat where "NGL_NODE_GLCOLORSTATE = 22"
definition NGL_NODE_GLPOLYGONMODESTATE :: nat where "NGL_NODE_GLPOLYGONMODESTATE = 23"
definition NGL_NODE_GLSTENCILSTATE :: nat where "NGL_NODE_GLSTENCILSTATE = 24"

text \<open>
  The body of the loop of \<open>ngli_honor_glstates\<close> for one state node with class
  identifier \<open>cid\<close> and private data \<open>s\<close>: the saved values go to the second
  components, the configured values to the driver.
\<close>

definition honor_glstate :: "nat \<Rightarrow> glstate \<Rightarrow> gl_driver \<Rightarrow> glstate \<times> gl_driver" where
  "honor_glstate cid s g =
     (if cid = NGL_NODE_GLBLENDSTATE then
        (let s1 = s\<lparr>enabled := (fst (enabled s), glIsEnabledv (capability s) g)\<rparr> in
         if fst (enabled s1) \<noteq> 0 then
           (s1\<lparr>src_rgb := (fst (src_rgb s1), blend_src_rgb g),
               dst_rgb := (fst (dst_rgb s1), blend_dst_rgb g),
               src_alpha := (fst (src_alpha s1), blend_src_alpha g),
               dst_alpha := (fst (dst_alpha s1), blend_dst_alpha g),
               mode_rgb := (fst (mode_rgb s1), blend_equation_rgb g),
               mode_alpha := (fst (mode_alpha s1), blend_equation_alpha g)\<rparr>,
            glBlendEquationSeparate (fst (mode_rgb s1)) (fst (mode_alpha s1))
              (glBlendFuncSeparate (fst (src_rgb s1)) (fst (dst_rgb s1))
                 (fst (src_alpha s1)) (fst (dst_alpha s1))
                 (glEnable (capability s1) g)))
         else (s1, glDisable (capability s1) g))
      else if cid = NGL_NODE_GLCOLORSTATE then
        (s\<lparr>rgba := (fst (rgba s), color_writemask g)\<rparr>,
         (case fst (rgba s) of (r, g', b, a) \<Rightarrow> glColorMask r g' b a g))
      else if cid = NGL_NODE_GLPOLYGONMODESTATE then
        (s\<lparr>mode := (fst (mode s), polygon_mode g)\<rparr>, glPolygonMode (fst (mode s)) g)
      else if cid = NGL_NODE_GLSTENCILSTATE then
        (let s1 = s\<lparr>enabled := (fst (enabled s), glIsEnabledv (capability s) g)\<rparr> in
         if fst (enabled s1) \<noteq> 0 then
           (s1\<lparr>writemask := (fst (writemask s1), stencil_writemask g),
               func := (fst (func s1), stencil_func g),
               func_ref := (fst (func_ref s1), stencil_ref g),
               func_mask := (fst (func_mask s1), stencil_value_mask g),
               op_sfail := (fst (op_sfail s1), stencil_fail g),
               op_dpfail := (fst (op_dpfail s1), stencil_pass_depth_fail g),
               op_dppass := (fst (op_dppass s1), stencil_pass_depth_pass g)\<rparr>,
            glStencilOp (fst (op_sfail s1)) (fst (op_dpfail s1)) (fst (op_dppass s1))
              (glStencilFunc (fst (func s1)) (fst (func_ref s1)) (fst (func_mask s1))
                 (glStencilMask (fst (writemask s1))
                    (glEnable (capability s1) g))))
         else (s1, glDisable (capability s1) g))
      else
        (let s1 = s\<lparr>enabled := (fst (enabled s), glIsEnabledv (capability s) g)\<rparr> in
         if fst (enabled s1) \<noteq> snd (enabled s1) then
           (if fst (enabled s1) \<noteq> 0 then (s1, glEnable (capability s1) g)
            else (s1, glDisable (capability s1) g))
         else (s1, g)))"

text \<open>The body of the loop of \<open>ngli_restore_glstates\<close>.\<close>

definition restore_glstate :: "nat \<Rightarrow> glstate \<Rightarrow> gl_driver \<Rightarrow> gl_driver" where
  "restore_glstate cid s g =
     (if cid = NGL_NODE_GLBLENDSTATE then
        (if snd (enabled s) \<noteq> 0 then
           glBlendEquationSeparate (snd (mode_rgb s)) (snd (mode_alpha s))
             (glBlendFuncSeparate (snd (src_rgb s)) (snd (dst_rgb s))
                (snd (src_alpha s)) (snd (dst_alpha s))
                (glEnable (capability s) g))
         else glDisable (capability s) g)
      else if cid = NGL_NODE_GLCOLORSTATE then
        (case snd (rgba s) of (r, g', b, a) \<Rightarrow> glColorMask r g' b a g)
      else if cid = NGL_NODE_GLPOLYGONMODESTATE then
        glPolygonMode (snd (mode s)) g
      else if cid = NGL_NODE_GLSTENCILSTATE then
        (if snd (enabled s) \<noteq> 0 then
           glStencilOp (snd (op_sfail s)) (snd (op_dpfail s)) (snd (op_dppass s))
             (glStencilFunc (snd (func s)) (snd (func_ref s)) (snd (func_mask s))
                (glStencilMask (snd (writemask s))
                   (glEnable (capability s) g)))
         else glDisable (capability s) g)
      else
        (if fst (enabled s) \<noteq> snd (enabled s) then
           (if snd (enabled s) \<noteq> 0 then glEnable (capability s) g
            else glDisable (capability s) g)
         else g))"

text \<open>
  \<open>struct glstate\<close> is not among the sources. Every field that nodes.c reads or writes
  is an \<open>int\<close> of 4 bytes (it passes their addresses to \<open>glGetIntegerv\<close>); the model lays
  them out in the order of the record. \<open>glstate_at\<close> reads the structure from the \<open>int\<close>s
  of a private block, \<open>put_glstate\<close> writes it there.
\<close>

definition pair_at :: "(nat \<Rightarrow> int) \<Rightarrow> nat \<Rightarrow> int \<times> int" where
  "pair_at m off = (m off, m (off + 4))"

definition put_pair :: "nat \<Rightarrow> int \<times> int \<Rightarrow> (nat \<Rightarrow> int) \<Rightarrow> (nat \<Rightarrow> int)" where
  "put_pair off v m = m(off := fst v, off + 4 := snd v)"

definition quad_at :: "(nat \<Rightarrow> int) \<Rightarrow> nat \<Rightarrow> rgba" where
  "quad_at m off = (m off, m (off + 4), m (off + 8), m (off + 12))"

definition put_quad :: "nat \<Rightarrow> rgba \<Rightarrow> (nat \<Rightarrow> int) \<Rightarrow> (nat \<Rightarrow> int)" where
  "put_quad off v m =
     (case v of (r, g, b, a) \<Rightarrow> m(off := r, off + 4 := g, off + 8 := b, off + 12 := a))"

definition glstate_at :: "(nat \<Rightarrow> int) \<Rightarrow> glstate" where
  "glstate_at m =
     \<lparr>capability = m 0, enabled = pair_at m 4, src_rgb = pair_at m 12, dst_rgb = pair_at m 20,
      src_alpha = pair_at m 28, dst_alpha = pair_at m 36, mode_rgb = pair_at m 44,
      mode_alpha = pair_at m 52, rgba = (quad_at m 60, quad_at m 76),
      mode = pair_at m 92, writemask = pair_at m 100, func = pair_at m 108,
      func_ref = pair_at m 116, func_mask = pair_at m 124, op_sfail = pair_at m 132,
      op_dpfail = pair_at m 140, op_dppass = pair_at m 148\<rparr>"

definition put_glstate :: "glstate \<Rightarrow> (nat \<Rightarrow> int) \<Rightarrow> (nat \<Rightarrow> int)" where
  "put_glstate s m =
     put_pair 148 (op_dppass s) (put_pair 140 (op_dpfail s) (put_pair 132 (op_sfail s)
     (put_pair 124 (func_mask s) (put_pair 116 (func_ref s) (put_pair 108 (func s)
     (put_pair 100 (writemask s) (put_pair 92 (mode s)
     (put_quad 76 (snd (rgba s)) (put_quad 60 (fst (rgba s))
     (put_pair 52 (mode_alpha s) (put_pair 44 (mode_rgb s) (put_pair 36 (dst_alpha s)
     (put_pair 28 (src_alpha s) (put_pair 20 (dst_rgb s) (put_pair 12 (src_rgb s)
     (put_pair 4 (enabled s) (m(0 := capability s))))))))))))))))))"

text \<open>
  Both functions first read \<open>ctx->glcontext\<close>, which faults on a node without context,
  and then walk the list of state nodes in order.
\<close>

fun honor_loop :: "world \<Rightarrow> addr list \<Rightarrow> world" where
  "honor_loop w [] = w"
| "honor_loop w (stnode # rest) =
     (case honor_glstate (class_id (cls (heap w stnode)))
             (glstate_at (ints (priv (heap w stnode)))) (gl w) of
        (s', g') \<Rightarrow>
          honor_loop
            (upd (w\<lparr>gl := g'\<rparr>) stnode
               (\<lambda>nd. nd\<lparr>priv := (priv nd)\<lparr>ints := put_glstate s' (ints (priv nd))\<rparr>\<rparr>))
            rest)"

fun restore_loop :: "world \<Rightarrow> addr list \<Rightarrow> world" where
  "restore_loop w [] = w"
| "restore_loop w (stnode # rest) =
     restore_loop
       (w\<lparr>gl := restore_glstate (class_id (cls (heap w stnode)))
                  (glstate_at (ints (priv (heap w stnode)))) (gl w)\<rparr>)
       rest"

definition ngli_honor_glstates :: "world \<Rightarrow> nat option \<Rightarrow> addr list \<Rightarrow> error + world" where
  "ngli_honor_glstates w c sts =
     (case c of None \<Rightarrow> Inl MemoryFault | Some cx \<Rightarrow> Inr (honor_loop w sts))"

definition ngli_restore_glstates :: "world \<Rightarrow> nat option \<Rightarrow> addr list \<Rightarrow> error + world" where
  "ngli_restore_glstates w c sts =
     (case c of None \<Rightarrow> Inl MemoryFault | Some cx \<Rightarrow> Inr (restore_loop w sts))"

definition ngli_node_draw :: "world \<Rightarrow> addr \<Rightarrow> error + world" where
  "ngli_node_draw w p =
     (case draw (cls (heap w p)) of
        None \<Rightarrow> Inr w
      | Some cb \<Rightarrow>
          (case ngli_honor_glstates (LOG (LOG_DRAW p) w) (ctx (heap w p)) (glstates (heap w p)) of
             Inl e \<Rightarrow> Inl e
           | Inr w1 \<Rightarrow>
               (case cb (priv (heap w1 p)) (gl w1) of
                  (pr, g) \<Rightarrow>
                    (let w2 = upd (w1\<lparr>gl := g\<rparr>) p (\<lambda>nd. nd\<lparr>priv := pr\<rparr>)
                     in ngli_restore_glstates w2 (ctx (heap w2 p)) (glstates (heap w2 p))))))"

section \<open>Parameter changes through the API\<close>

text \<open>
  \<open>ngli_params_find\<close>, \<open>ngli_params_set\<close> and \<open>ngli_params_add\<close> belong to params.c,
  which is not among the sources. The lookup is the first entry of the table with the
  key. The two writers are parameters of the model: \<open>set_base\<close> works on the two fields
  of the node structure that the base table describes, \<open>set_priv\<close> on the private data;
  both return the status code.
\<close>

definition ngli_params_find :: "node_param list \<Rightarrow> string \<Rightarrow> node_param option" where
  "ngli_params_find pars k = find (\<lambda>par. key par = k) pars"

text \<open>The result is the parameter and whether \<open>*base_ptrp\<close> is the node structure.\<close>

definition ngli_node_param_find :: "ngl_node \<Rightarrow> string \<Rightarrow> (node_param \<times> bool) option" where
  "ngli_node_param_find nd k =
     (case ngli_params_find ngli_base_node_params k of
        Some par \<Rightarrow> Some (par, True)
      | None \<Rightarrow>
          (case ngli_params_find (params (cls nd)) k of
             Some par \<Rightarrow> Some (par, False)
           | None \<Rightarrow> None))"

definition param_write ::
  "(node_param \<Rightarrow> addr list \<times> string \<Rightarrow> int \<times> addr list \<times> string)
   \<Rightarrow> (node_param \<Rightarrow> priv_data \<Rightarrow> int \<times> priv_data)
   \<Rightarrow> node_param \<times> bool \<Rightarrow> ngl_node \<Rightarrow> int \<times> ngl_node" where
  "param_write set_base set_priv pb nd =
     (if snd pb then
        (case set_base (fst pb) (glstates nd, name nd) of
           (rc, gs, nm) \<Rightarrow> (rc, nd\<lparr>glstates := gs, name := nm\<rparr>))
      else
        (case set_priv (fst pb) (priv nd) of
           (rc, pr) \<Rightarrow> (rc, nd\<lparr>priv := pr\<rparr>)))"

definition ngl_node_param_set ::
  "(node_param \<Rightarrow> addr list \<times> string \<Rightarrow> int \<times> addr list \<times> string)
   \<Rightarrow> (node_param \<Rightarrow> priv_data \<Rightarrow> int \<times> priv_data)
   \<Rightarrow> world \<Rightarrow> addr \<Rightarrow> string \<Rightarrow> error + int \<times> world" where
  "ngl_node_param_set set_base set_priv w p k =
     (case ngli_node_param_find (heap w p) k of
        None \<Rightarrow> Inr (- 1, LOG (LOG_PARAM_NOT_FOUND p k) w)
      | Some pb \<Rightarrow>
          (case param_write set_base set_priv pb (heap w p) of
             (rc, nd) \<Rightarrow>
               (case node_uninit
                       (if rc < 0 then LOG (LOG_SET_FAILED p k) (upd w p (\<lambda>x. nd))
                        else upd w p (\<lambda>x. nd))
                       p of
                  Inl e \<Rightarrow> Inl e
                | Inr w1 \<Rightarrow> Inr (rc, w1))))"

definition ngl_node_param_add ::
  "(node_param \<Rightarrow> addr list \<times> string \<Rightarrow> int \<times> addr list \<times> string)
   \<Rightarrow> (node_param \<Rightarrow> priv_data \<Rightarrow> int \<times> priv_data)
   \<Rightarrow> world \<Rightarrow> addr \<Rightarrow> string \<Rightarrow> error + int \<times> world" where
  "ngl_node_param_add add_base add_priv w p k =
     (case ngli_node_param_find (heap w p) k of
        None \<Rightarrow> Inr (- 1, LOG (LOG_PARAM_NOT_FOUND p k) w)
      | Some pb \<Rightarrow>
          (case param_write add_base add_priv pb (heap w p) of
             (rc, nd) \<Rightarrow>
               (case node_uninit
                       (if rc < 0 then LOG (LOG_ADD_FAILED p k) (upd w p (\<lambda>x. nd))
                        else upd w p (\<lambda>x. nd))
                       p of
                  Inl e \<Rightarrow> Inl e
                | Inr w1 \<Rightarrow> Inr (rc, w1))))"

section \<open>Size rounding in node creation\<close>



section \<open>The layout of a parameter table\<close>

text \<open>
  A table is laid out in a block of \<open>sz\<close> bytes from \<open>cur\<close> on when its entries come in
  ascending order of offset, none starts before the one before it ends, and the last
  ends inside the block. A byte is covered when it belongs to the field of an entry.
\<close>

fun laid_out :: "nat \<Rightarrow> node_param list \<Rightarrow> nat \<Rightarrow> bool" where
  "laid_out cur [] sz = (cur \<le> sz)"
| "laid_out cur (par # pars) sz =
     (cur \<le> offset par \<and> laid_out (offset par + opt_sizes (par_type par)) pars sz)"

definition covered :: "node_param list \<Rightarrow> nat \<Rightarrow> bool" where
  "covered pars i =
     list_ex (\<lambda>par. offset par \<le> i \<and> i < offset par + opt_sizes (par_type par)) pars"

text \<open>
  A field of \<open>n\<close> bytes at \<open>off\<close> is uncovered when it lies in the block of \<open>sz\<close> bytes and
  none of its bytes is covered.
\<close>

definition uncovered :: "node_param list \<Rightarrow> nat \<Rightarrow> nat \<Rightarrow> nat \<Rightarrow> bool" where
  "uncovered pars sz off n \<longleftrightarrow>
     off + n \<le> sz \<and> list_all (\<lambda>i. \<not> covered pars i) [off..<off + n]"

text \<open>
  \<open>clear_by h pr\<close> is the block \<open>pr\<close> with every field cleared that \<open>h\<close> selects by offset
  and size; \<open>clear_uncovered\<close> clears the uncovered fields. A block is \<open>clean\<close> when every
  uncovered field of it reads as zero: it holds no stale value outside the parameters.
\<close>

definition clear_by :: "(nat \<Rightarrow> nat \<Rightarrow> bool) \<Rightarrow> priv_data \<Rightarrow> priv_data" where
  "clear_by h pr =
     \<lparr>flds =
        \<lparr>node_at = (\<lambda>i. if h i (opt_sizes PARAM_TYPE_NODE) then None else node_at (flds pr) i),
         nodelist_at = (\<lambda>i. if h i (opt_sizes PARAM_TYPE_NODELIST) then []
                             else nodelist_at (flds pr) i),
         nodedict_at = (\<lambda>i. if h i (opt_sizes PARAM_TYPE_NODEDICT) then None
                             else nodedict_at (flds pr) i)\<rparr>,
      bytes = (\<lambda>i. if h i 1 then 0 else bytes pr i),
      ints = (\<lambda>i. if h i (opt_sizes PARAM_TYPE_INT) then 0 else ints pr i)\<rparr>"

definition clear_uncovered :: "node_param list \<Rightarrow> nat \<Rightarrow> priv_data \<Rightarrow> priv_data" where
  "clear_uncovered pars sz pr = clear_by (uncovered pars sz) pr"

definition clean :: "node_param list \<Rightarrow> nat \<Rightarrow> priv_data \<Rightarrow> bool" where
  "clean pars sz pr \<longleftrightarrow>
     (\<forall>i. (uncovered pars sz i 1 \<longrightarrow> bytes pr i = 0)
        \<and> (uncovered pars sz i (opt_sizes PARAM_TYPE_INT) \<longrightarrow> ints pr i = 0)
        \<and> (uncovered pars sz i (opt_sizes PARAM_TYPE_NODE) \<longrightarrow> node_at (flds pr) i = None)
        \<and> (uncovered pars sz i (opt_sizes PARAM_TYPE_NODELIST) \<longrightarrow> nodelist_at (flds pr) i = [])
        \<and> (uncovered pars sz i (opt_sizes PARAM_TYPE_NODEDICT) \<longrightarrow> nodedict_at (flds pr) i = None))"

text \<open>
  The fields that the calls of \<open>memset\<close> in \<open>reset_non_params\<close> clear, starting at
  \<open>cur\<close>: those inside the gap before a parameter, and those inside the rest of the block.
\<close>

fun hit :: "nat \<Rightarrow> node_param list \<Rightarrow> nat \<Rightarrow> nat \<Rightarrow> nat \<Rightarrow> bool" where
  "hit cur [] sz i n = (cur \<le> i \<and> i + n \<le> cur + size_t_sub sz cur)"
| "hit cur (par # pars) sz i n =
     (offset par \<noteq> cur \<and> cur \<le> i \<and> i + n \<le> cur + size_t_sub (offset par) cur
      \<or> hit (offset par + opt_sizes (par_type par)) pars sz i n)"

definition call_opt :: "('a \<Rightarrow> 'a) option \<Rightarrow> 'a \<Rightarrow> 'a" where
  "call_opt cb x = (case cb of None \<Rightarrow> x | Some f \<Rightarrow> f x)"

text \<open>The private data when \<open>reset_non_params\<close> starts.\<close>

definition torn_down :: "ngl_node \<Rightarrow> priv_data" where
  "torn_down nd =
     call_opt (uninit (cls nd))
       (if state nd = STATE_READY then call_opt (release (cls nd)) (priv nd) else priv nd)"

definition teardown_log :: "addr \<Rightarrow> ngl_node \<Rightarrow> log_line list" where
  "teardown_log p nd =
     (if state nd = STATE_READY \<and> release (cls nd) \<noteq> None then [LOG_RELEASE p] else [])
     @ (if uninit (cls nd) \<noteq> None then [LOG_UNINIT p] else [])"

section \<open>Relations between the worlds before and after a call\<close>

text \<open>
  A relation between the world before a call, the status code and the world after it
  \<open>composes\<close> when it holds of a call that does nothing and returns 0, and of two calls
  in sequence whenever the first returns a non-negative status.
\<close>

definition composes :: "(int \<Rightarrow> world \<Rightarrow> world \<Rightarrow> bool) \<Rightarrow> bool" where
  "composes R \<longleftrightarrow>
     (\<forall>w. R 0 w w) \<and>
     (\<forall>rc1 rc w w1 w'. R rc1 w w1 \<longrightarrow> 0 \<le> rc1 \<longrightarrow> R rc w1 w' \<longrightarrow> R rc w w')"

text \<open>What no lifecycle function changes.\<close>

definition hdr_kept :: "world \<Rightarrow> world \<Rightarrow> bool" where
  "hdr_kept w w' \<longleftrightarrow>
     (\<forall>q. cls (heap w' q) = cls (heap w q) \<and> ctx (heap w' q) = ctx (heap w q)
        \<and> is_active (heap w' q) = is_active (heap w q)
        \<and> visit_time (heap w' q) = visit_time (heap w q)
        \<and> last_update_time (heap w' q) = last_update_time (heap w q)
        \<and> glstates (heap w' q) = glstates (heap w q)
        \<and> refcount (heap w' q) = refcount (heap w q))
     \<and> gl w' = gl w \<and> freed w' = freed w"

text \<open>What \<open>ngli_node_init\<close> may change.\<close>

definition init_rel :: "world \<Rightarrow> world \<Rightarrow> bool" where
  "init_rel w w' \<longleftrightarrow>
     hdr_kept w w'
     \<and> (\<forall>q. state (heap w' q) = state (heap w q)
            \<or> state (heap w q) = STATE_UNINITIALIZED \<and> state (heap w' q) = STATE_INITIALIZED)
     \<and> (\<exists>ls. log w' = log w @ ls \<and> set ls \<subseteq> range LOG_INIT)"

definition prefetches :: "addr \<Rightarrow> world \<Rightarrow> nat" where
  "prefetches c w = count_list (log w) (LOG_PREFETCH c)"

definition once_rel :: "addr \<Rightarrow> int \<Rightarrow> world \<Rightarrow> world \<Rightarrow> bool" where
  "once_rel c rc w w' \<longleftrightarrow>
     hdr_kept w w'
     \<and> prefetches c w \<le> prefetches c w' \<and> prefetches c w' \<le> prefetches c w + 1
     \<and> (state (heap w c) = STATE_READY \<and> is_active (heap w c) \<noteq> 0 \<longrightarrow>
          prefetches c w' = prefetches c w \<and> state (heap w' c) = STATE_READY)
     \<and> (prefetches c w' = prefetches c w + 1 \<and> 0 \<le> rc \<longrightarrow>
          state (heap w' c) = STATE_READY \<and> is_active (heap w' c) \<noteq> 0)"

definition parent_activity :: "world \<Rightarrow> addr option \<Rightarrow> int" where
  "parent_activity w frm = (case frm of Some f \<Rightarrow> is_active (heap w f) | None \<Rightarrow> 1)"

definition visit_rel :: "int \<Rightarrow> cdouble \<Rightarrow> world \<Rightarrow> world \<Rightarrow> bool" where
  "visit_rel a t w w' \<longleftrightarrow>
     (\<forall>q. cls (heap w' q) = cls (heap w q) \<and> ctx (heap w' q) = ctx (heap w q)
        \<and> last_update_time (heap w' q) = last_update_time (heap w q)
        \<and> glstates (heap w' q) = glstates (heap w q)
        \<and> refcount (heap w' q) = refcount (heap w q)
        \<and> (visit (cls (heap w q)) = None \<longrightarrow>
             (is_active (heap w' q) = is_active (heap w q) \<or> is_active (heap w' q) = a)
           \<and> (visit_time (heap w' q) = visit_time (heap w q) \<or> visit_time (heap w' q) = t)))
     \<and> gl w' = gl w \<and> freed w' = freed w
     \<and> (\<exists>ls. log w' = log w @ ls \<and> set ls \<subseteq> range LOG_INIT)"

definition visit_from :: "addr \<Rightarrow> int \<Rightarrow> cdouble \<Rightarrow> int \<Rightarrow> world \<Rightarrow> world \<Rightarrow> bool" where
  "visit_from c a t rc w w' \<longleftrightarrow>
     (is_active (heap w c) = a \<and> visit (cls (heap w c)) = None \<longrightarrow> visit_rel a t w w')"






text \<open>The log only grows.\<close>

definition log_grows :: "int \<Rightarrow> world \<Rightarrow> world \<Rightarrow> bool" where
  "log_grows rc w w' \<longleftrightarrow> (\<exists>ls. log w' = log w @ ls)"

section \<open>Observing a call, and small scenes\<close>

definition status_of :: "res \<Rightarrow> int option" where
  "status_of r = (case r of Some (Inr (rc, w)) \<Rightarrow> Some rc | _ \<Rightarrow> None)"

definition plain_class :: node_class where
  "plain_class =
     \<lparr>class_id = 1, params = [], priv_size = 0, init = None, prefetch = None, release = None,
      uninit = None, update = None, draw = None, visit = None\<rparr>"

text \<open>A class with every lifecycle callback, each succeeding and leaving the data alone.\<close>

definition ok_class :: node_class where
  "ok_class =
     \<lparr>class_id = 2, params = [], priv_size = 0,
      init = Some (\<lambda>pr. (0, pr)), prefetch = Some (\<lambda>pr. (0, pr)),
      release = Some (\<lambda>pr. pr), uninit = Some (\<lambda>pr. pr),
      update = Some (\<lambda>t pr. (0, pr)), draw = None, visit = None\<rparr>"

text \<open>The initial values of an OpenGL context.\<close>

definition gl0 :: gl_driver where
  "gl0 =
     \<lparr>caps = (\<lambda>cap. False), blend_src_rgb = 1, blend_dst_rgb = 0, blend_src_alpha = 1,
      blend_dst_alpha = 0, blend_equation_rgb = 32774, blend_equation_alpha = 32774,
      color_writemask = (1, 1, 1, 1), polygon_mode = 6914, stencil_writemask = 255,
      stencil_func = 519, stencil_ref = 0, stencil_value_mask = 255, stencil_fail = 7680,
      stencil_pass_depth_fail = 7680, stencil_pass_depth_pass = 7680\<rparr>"

definition world0 :: "(addr \<Rightarrow> ngl_node) \<Rightarrow> world" where
  "world0 h = \<lparr>heap = h, gl = gl0, log = [], freed = []\<rparr>"

definition world_of :: "res \<Rightarrow> world" where
  "world_of r =
     (case r of Some (Inr (rc, w)) \<Rightarrow> w | _ \<Rightarrow> world0 (\<lambda>a. node_create plain_class))"

text \<open>A created node, attached to the context 1.\<close>

definition attached :: "node_class \<Rightarrow> ngl_node" where
  "attached c = (node_create c)\<lparr>ctx := Some 1\<rparr>"

definition with_node :: "nat \<Rightarrow> addr \<Rightarrow> ngl_node \<Rightarrow> ngl_node" where
  "with_node off c nd =
     nd\<lparr>priv := (priv nd)\<lparr>flds := (flds (priv nd))\<lparr>node_at :=
       (node_at (flds (priv nd)))(off := Some c)\<rparr>\<rparr>\<rparr>"

definition with_nodelist :: "nat \<Rightarrow> addr list \<Rightarrow> ngl_node \<Rightarrow> ngl_node" where
  "with_nodelist off cs nd =
     nd\<lparr>priv := (priv nd)\<lparr>flds := (flds (priv nd))\<lparr>nodelist_at :=
       (nodelist_at (flds (priv nd)))(off := cs)\<rparr>\<rparr>\<rparr>"

definition group_class :: node_class where
  "group_class = ok_class\<lparr>class_id := 3,
     params := [\<lparr>key = ''children'', par_type = PARAM_TYPE_NODELIST, offset = 0\<rparr>]\<rparr>"

definition wrap_class :: node_class where
  "wrap_class = ok_class\<lparr>class_id := 4,
     params := [\<lparr>key = ''child'', par_type = PARAM_TYPE_NODE, offset = 0\<rparr>]\<rparr>"

text \<open>The diamond: the root 0 lists 1 and 2, which both refer to 3.\<close>

definition diamond :: world where
  "diamond = world0
     ((\<lambda>a. attached ok_class)
        (0 := with_nodelist 0 [1, 2] (attached group_class),
         1 := with_node 0 3 (attached wrap_class),
         2 := with_node 0 3 (attached wrap_class)))"

definition diamond_visited :: world where
  "diamond_visited = world_of (ngli_node_visit 4 diamond 0 None (Dbl 0))"

definition diamond_reconciled :: world where
  "diamond_reconciled =
     world_of (ngli_node_honor_release_prefetch 4 diamond_visited 0 (Dbl 0))"




text \<open>Parameter writers that leave the value as it is, and a free that frees nothing more.\<close>

definition keep_params :: "bool \<Rightarrow> addr \<Rightarrow> world \<Rightarrow> world" where
  "keep_params base p w = w"

text \<open>A created node, not attached.\<close>

definition fresh_scene :: world where
  "fresh_scene = world0 (\<lambda>a. node_create ok_class)"

text \<open>A node that holds as many references as an \<open>int\<close> can count.\<close>

definition full_scene :: world where
  "full_scene = world0 (\<lambda>a. (node_create ok_class)\<lparr>refcount := 2147483647\<rparr>)"

definition keep_base :: "node_param \<Rightarrow> addr list \<times> string \<Rightarrow> int \<times> addr list \<times> string" where
  "keep_base par x = (0, x)"

definition keep_priv :: "node_param \<Rightarrow> priv_data \<Rightarrow> int \<times> priv_data" where
  "keep_priv par pr = (0, pr)"

text \<open>
  A class with an \<open>int\<close> at offset 4 and a node at offset 16 in a private block of 32
  bytes, and a ready node of it whose block is full of stale values.
\<close>

definition gap_class :: node_class where
  "gap_class = ok_class\<lparr>class_id := 5, priv_size := 32,
     params := [\<lparr>key = ''a'', par_type = PARAM_TYPE_INT, offset = 4\<rparr>,
                \<lparr>key = ''child'', par_type = PARAM_TYPE_NODE, offset = 16\<rparr>]\<rparr>"

definition stale_priv :: priv_data where
  "stale_priv =
     \<lparr>flds = \<lparr>node_at = (\<lambda>off. Some 9), nodelist_at = (\<lambda>off. [9]),
              nodedict_at = (\<lambda>off. Some [(''k'', 9)])\<rparr>,
      bytes = (\<lambda>i. 255), ints = (\<lambda>off. 7)\<rparr>"

definition stale_scene :: world where
  "stale_scene = world0
     (\<lambda>a. (attached gap_class)\<lparr>state := STATE_READY, priv := stale_priv\<rparr>)"


definition two_scenes :: world where
  "two_scenes = world0 ((\<lambda>a. node_create ok_class)(0 := node_create wrap_class))"

definition two_attached :: world where
  "two_attached =
     world_of (ngli_node_attach_ctx 2
       (world_of (ngli_node_attach_ctx 2 two_scenes 3 (Some 2))) 0 (Some 1))"




text \<open>
  A node 0 that draws under the override 5, which disables blending. The override 6
  enables blending with the functions \<open>GL_SRC_ALPHA\<close>, \<open>GL_ONE_MINUS_SRC_ALPHA\<close>, as the
  node does inside whose draw node 0 is drawn. \<open>blend_outer\<close> is the world when the outer
  override has been honored, \<open>blend_drawn\<close> the world after the draw of node 0, and
  \<open>blend_final\<close> the world when the outer override has been restored.
\<close>

definition GL_BLEND :: int where "GL_BLEND = 3042"

definition blend_class :: node_class where
  "blend_class = plain_class\<lparr>class_id := NGL_NODE_GLBLENDSTATE, priv_size := 156\<rparr>"

definition draw_class :: node_class where
  "draw_class = plain_class\<lparr>class_id := 6, draw := Some (\<lambda>pr g. (pr, g))\<rparr>"

definition blend_node :: "int \<Rightarrow> int \<Rightarrow> int \<Rightarrow> int \<Rightarrow> int \<Rightarrow> int \<Rightarrow> ngl_node" where
  "blend_node en srgb drgb sa da eq =
     (attached blend_class)\<lparr>priv := zero_priv\<lparr>ints :=
        put_glstate
          ((glstate_at (\<lambda>off. 0))\<lparr>capability := GL_BLEND, enabled := (en, 0),
             src_rgb := (srgb, 0), dst_rgb := (drgb, 0), src_alpha := (sa, 0),
             dst_alpha := (da, 0), mode_rgb := (eq, 0), mode_alpha := (eq, 0)\<rparr>)
          (\<lambda>off. 0)\<rparr>\<rparr>"

definition blend_scene :: world where
  "blend_scene = world0
     ((\<lambda>a. attached plain_class)
        (0 := (attached draw_class)\<lparr>glstates := [5]\<rparr>,
         5 := blend_node 0 1 0 1 0 32774,
         6 := blend_node 1 770 771 1 771 32774))"

definition isr :: "error + world \<Rightarrow> bool" where
  "isr r = (case r of Inr w \<Rightarrow> True | Inl e \<Rightarrow> False)"

definition world_after :: "error + world \<Rightarrow> world" where
  "world_after r = (case r of Inr w \<Rightarrow> w | Inl e \<Rightarrow> world0 (\<lambda>a. node_create plain_class))"

definition blend_outer :: world where
  "blend_outer = world_after (ngli_honor_glstates blend_scene (Some 1) [6])"

definition blend_drawn :: world where
  "blend_drawn = world_after (ngli_node_draw blend_outer 0)"

definition blend_final :: world where
  "blend_final = world_after (ngli_restore_glstates blend_drawn (Some 1) [6])"

definition ex6_w :: world where
  "ex6_w = world0 (\<lambda>a. attached ok_class)"

definition cex6_w :: world where
  "cex6_w = world0 (\<lambda>a. attached (ok_class\<lparr>update := None\<rparr>))"

section \<open>Properties\<close>

subsection \<open>Calls in sequence\<close>

lemma heap_upd [simp]: "heap (upd w p f) q = (if q = p then f (heap w p) else heap w q)"
  and log_upd [simp]: "log (upd w p f) = log w"
  and gl_upd [simp]: "gl (upd w p f) = gl w"
  and freed_upd [simp]: "freed (upd w p f) = freed w"
  by (simp_all add: upd_def)

lemma heap_LOG [simp]: "heap (LOG l w) = heap w"
  and log_LOG [simp]: "log (LOG l w) = log w @ [l]"
  and gl_LOG [simp]: "gl (LOG l w) = gl w"
  and freed_LOG [simp]: "freed (LOG l w) = freed w"
  by (simp_all add: LOG_def)

lemma then_ok_SomeD:
  "then_ok r k = Some (Inr (rc, w')) \<Longrightarrow>
     (r = Some (Inr (rc, w')) \<and> rc < 0) \<or>
     (\<exists>rc1 w1. r = Some (Inr (rc1, w1)) \<and> 0 \<le> rc1 \<and> k w1 = Some (Inr (rc, w')))"
  by (auto simp: then_ok_def split: option.splits sum.splits if_splits)

lemma then_ok_None [simp]: "then_ok None k = None"
  and then_ok_Inl [simp]: "then_ok (Some (Inl e)) k = Some (Inl e)"
  by (simp_all add: then_ok_def)

lemma then_ok_ret [simp]: "then_ok (ret rc w) k = (if rc < 0 then ret rc w else k w)"
  by (simp add: then_ok_def ret_def)

lemma ret_eq [simp]: "(ret rc w = Some (Inr (rc', w'))) = (rc = rc' \<and> w = w')"
  by (auto simp: ret_def)

lemma then_okE:
  assumes "then_ok r k = Some (Inr (rc, w'))"
  obtains (stop) "r = Some (Inr (rc, w'))" "rc < 0"
  | (go) rc1 w1 where "r = Some (Inr (rc1, w1))" "0 \<le> rc1" "k w1 = Some (Inr (rc, w'))"
  using then_ok_SomeD [OF assms] by blast

lemma then_ok_rel:
  assumes "composes R"
    and "then_ok r k = Some (Inr (rc, w'))"
    and "\<And>rc1 w1. r = Some (Inr (rc1, w1)) \<Longrightarrow> R rc1 w w1"
    and "\<And>rc1 w1. r = Some (Inr (rc1, w1)) \<Longrightarrow> 0 \<le> rc1 \<Longrightarrow> k w1 = Some (Inr (rc, w')) \<Longrightarrow> R rc w1 w'"
  shows "R rc w w'"
  using assms(2)
proof (rule then_ok_SomeD [THEN disjE])
  assume "r = Some (Inr (rc, w')) \<and> rc < 0"
  then show ?thesis using assms(3) by blast
next
  assume "\<exists>rc1 w1. r = Some (Inr (rc1, w1)) \<and> 0 \<le> rc1 \<and> k w1 = Some (Inr (rc, w'))"
  then obtain rc1 w1 where h: "r = Some (Inr (rc1, w1))" "0 \<le> rc1" "k w1 = Some (Inr (rc, w'))"
    by blast
  from assms(3) [OF h(1)] assms(4) [OF h] h(2) assms(1) show ?thesis
    unfolding composes_def by blast
qed

lemma for_nodes_rel:
  assumes c: "composes R"
    and step: "\<And>w c rc w'. f w c = Some (Inr (rc, w')) \<Longrightarrow> R rc w w'"
  shows "for_nodes f w cs = Some (Inr (rc, w')) \<Longrightarrow> R rc w w'"
proof (induction cs arbitrary: w)
  case Nil
  then show ?case using c by (simp add: composes_def)
next
  case (Cons a cs)
  from Cons.prems have "then_ok (f w a) (\<lambda>w1. for_nodes f w1 cs) = Some (Inr (rc, w'))"
    by simp
  then show ?case
    by (rule then_ok_rel [OF c]) (auto intro: step Cons.IH)
qed

lemma for_params_rel:
  assumes c: "composes R"
    and step: "\<And>w c rc w'. f w c = Some (Inr (rc, w')) \<Longrightarrow> R rc w w'"
  shows "for_params f rd w pars = Some (Inr (rc, w')) \<Longrightarrow> R rc w w'"
proof (induction pars arbitrary: w)
  case Nil
  then show ?case using c by (simp add: composes_def)
next
  case (Cons par pars)
  have r0: "\<And>w. R 0 w w" using c by (simp add: composes_def)
  from Cons.prems have "then_ok
       (case par_type par of
          PARAM_TYPE_NODE \<Rightarrow>
            (case node_at (rd w) (offset par) of
               None \<Rightarrow> ret 0 w
             | Some child \<Rightarrow> f w child)
        | PARAM_TYPE_NODELIST \<Rightarrow> for_nodes f w (nodelist_at (rd w) (offset par))
        | PARAM_TYPE_NODEDICT \<Rightarrow>
            (case nodedict_at (rd w) (offset par) of
               None \<Rightarrow> ret 0 w
             | Some entries \<Rightarrow> for_nodes f w (map snd entries))
        | _ \<Rightarrow> ret 0 w)
       (\<lambda>w1. for_params f rd w1 pars) = Some (Inr (rc, w'))"
    by simp
  then show ?case
  proof (rule then_ok_rel [OF c])
    fix rc1 w1
    assume "(case par_type par of
          PARAM_TYPE_NODE \<Rightarrow>
            (case node_at (rd w) (offset par) of
               None \<Rightarrow> ret 0 w
             | Some child \<Rightarrow> f w child)
        | PARAM_TYPE_NODELIST \<Rightarrow> for_nodes f w (nodelist_at (rd w) (offset par))
        | PARAM_TYPE_NODEDICT \<Rightarrow>
            (case nodedict_at (rd w) (offset par) of
               None \<Rightarrow> ret 0 w
             | Some entries \<Rightarrow> for_nodes f w (map snd entries))
        | _ \<Rightarrow> ret 0 w) = Some (Inr (rc1, w1))"
    then show "R rc1 w w1"
      using r0 step for_nodes_rel [OF c step]
      by (auto split: param_type.splits option.splits)
  next
    fix rc1 w1
    assume "for_params f rd w1 pars = Some (Inr (rc, w'))"
    then show "R rc w1 w'" by (rule Cons.IH)
  qed
qed

subsection \<open>Initialization\<close>

lemma hdr_kept_refl: "hdr_kept w w"
  by (simp add: hdr_kept_def)

lemma hdr_kept_trans: "hdr_kept a b \<Longrightarrow> hdr_kept b c \<Longrightarrow> hdr_kept a c"
  by (simp add: hdr_kept_def)

lemma init_rel_refl: "init_rel w w"
  by (simp add: init_rel_def hdr_kept_refl)

lemma init_rel_trans:
  assumes "init_rel a b" "init_rel b c"
  shows "init_rel a c"
proof -
  from assms obtain l1 l2 where "log b = log a @ l1" "set l1 \<subseteq> range LOG_INIT"
    "log c = log b @ l2" "set l2 \<subseteq> range LOG_INIT"
    unfolding init_rel_def by blast
  then have "log c = log a @ (l1 @ l2) \<and> set (l1 @ l2) \<subseteq> range LOG_INIT" by simp
  then have l: "\<exists>ls. log c = log a @ ls \<and> set ls \<subseteq> range LOG_INIT" by blast
  have s: "\<forall>q. state (heap c q) = state (heap a q)
            \<or> state (heap a q) = STATE_UNINITIALIZED \<and> state (heap c q) = STATE_INITIALIZED"
    using assms unfolding init_rel_def by metis
  from assms l s show ?thesis
    unfolding init_rel_def using hdr_kept_trans by blast
qed

lemma composes_init_rel: "composes (\<lambda>rc. init_rel)"
  unfolding composes_def using init_rel_refl init_rel_trans by blast

lemma init_rel_cb: "init_rel w (upd (LOG (LOG_INIT p) w) p (\<lambda>nd. nd\<lparr>priv := pr\<rparr>))"
  by (simp add: init_rel_def hdr_kept_def)

lemma init_rel_set:
  "state (heap w p) = STATE_UNINITIALIZED \<or> state (heap w p) = STATE_INITIALIZED \<Longrightarrow>
   init_rel w (upd w p (\<lambda>nd. nd\<lparr>state := STATE_INITIALIZED\<rparr>))"
  by (auto simp add: init_rel_def hdr_kept_def)

lemma init_init_rel:
  "ngli_node_init n w p = Some (Inr (rc, w')) \<Longrightarrow> init_rel w w'"
proof (induction n arbitrary: w p rc w')
  case 0
  then show ?case by simp
next
  case (Suc n)
  have loop: "init_rel w1 w2"
    if "for_nodes (ngli_node_init n) w1 cs = Some (Inr (r, w2))" for w1 cs r w2
    using composes_init_rel _ that
    by (rule for_nodes_rel [where R = "\<lambda>rc. init_rel" and f = "ngli_node_init n"])
      (rule Suc.IH)
  show ?case
  proof (cases "state (heap w p) = STATE_UNINITIALIZED")
    case False
    with Suc.prems show ?thesis by (auto simp: init_rel_refl split: if_splits)
  next
    case un: True
    show ?thesis
    proof (cases "ctx (heap w p)")
      case None
      with un Suc.prems show ?thesis by simp
    next
      case (Some c)
      define A where "A = (case init (cls (heap w p)) of
             None \<Rightarrow> ret 0 w
           | Some cb \<Rightarrow>
               (case cb (priv (heap w p)) of
                  (rc, pr) \<Rightarrow> ret rc (upd (LOG (LOG_INIT p) w) p (\<lambda>nd. nd\<lparr>priv := pr\<rparr>))))"
      have A: "\<And>r1 w1. A = Some (Inr (r1, w1)) \<Longrightarrow> init_rel w w1"
        by (auto simp: A_def init_rel_refl init_rel_cb split: option.splits prod.splits)
      from Suc.prems un Some have e: "then_ok A
          (\<lambda>w1. then_ok (for_nodes (ngli_node_init n) w1 (glstates (heap w1 p)))
            (\<lambda>w2. ret 0 (upd w2 p (\<lambda>nd. nd\<lparr>state := STATE_INITIALIZED\<rparr>)))) = Some (Inr (rc, w'))"
        by (simp add: A_def)
      from e show ?thesis
      proof (cases rule: then_okE)
        case stop
        then show ?thesis using A by blast
      next
        case (go r1 w1)
        from go(1) have a: "init_rel w w1" by (rule A)
        from go(3) show ?thesis
        proof (cases rule: then_okE)
          case stop
          then show ?thesis using a loop init_rel_trans by blast
        next
          case (go r2 w2)
          from go(1) have "init_rel w1 w2" by (rule loop)
          with a have b: "init_rel w w2" by (rule init_rel_trans)
          then have "state (heap w2 p) = STATE_UNINITIALIZED \<or> state (heap w2 p) = STATE_INITIALIZED"
            using un unfolding init_rel_def by metis
          then have "init_rel w2 (upd w2 p (\<lambda>nd. nd\<lparr>state := STATE_INITIALIZED\<rparr>))"
            by (rule init_rel_set)
          with b go(3) show ?thesis using init_rel_trans by auto
        qed
      qed
    qed
  qed
qed

lemma init_ok_state:
  "ngli_node_init n w p = Some (Inr (rc, w')) \<Longrightarrow> 0 \<le> rc \<Longrightarrow>
   state (heap w' p) \<noteq> STATE_UNINITIALIZED"
proof (cases n)
  case 0
  assume "ngli_node_init n w p = Some (Inr (rc, w'))"
  with 0 show ?thesis by simp
next
  case (Suc m)
  assume a: "ngli_node_init n w p = Some (Inr (rc, w'))" and rc: "0 \<le> rc"
  from a rc show ?thesis unfolding Suc
    by (auto split: if_splits elim!: then_okE)
qed

subsection \<open>Prefetch and release\<close>

lemma prefetch_ok_state:
  "node_prefetch n w p = Some (Inr (rc, w')) \<Longrightarrow> 0 \<le> rc \<Longrightarrow> state (heap w' p) = STATE_READY"
  by (auto simp: node_prefetch_def split: if_splits option.splits prod.splits elim!: then_okE)

lemma node_prefetchE:
  assumes "node_prefetch n w p = Some (Inr (rc, w'))"
  obtains (ready) "state (heap w p) = STATE_READY" "rc = 0" "w' = w"
  | (init_failed) "state (heap w p) \<noteq> STATE_READY"
      "ngli_node_init n w p = Some (Inr (rc, w'))" "rc < 0"
  | (no_cb) r1 w1 where "state (heap w p) \<noteq> STATE_READY"
      "ngli_node_init n w p = Some (Inr (r1, w1))" "0 \<le> r1"
      "prefetch (cls (heap w1 p)) = None" "rc = 0"
      "w' = upd w1 p (\<lambda>nd. nd\<lparr>state := STATE_READY\<rparr>)"
  | (cb_failed) r1 w1 cb pr where "state (heap w p) \<noteq> STATE_READY"
      "ngli_node_init n w p = Some (Inr (r1, w1))" "0 \<le> r1"
      "prefetch (cls (heap w1 p)) = Some cb" "cb (priv (heap w1 p)) = (rc, pr)" "rc < 0"
      "w' = upd (LOG (LOG_PREFETCH p) w1) p (\<lambda>nd. nd\<lparr>priv := pr\<rparr>)"
  | (cb_ok) r1 w1 cb pr r2 where "state (heap w p) \<noteq> STATE_READY"
      "ngli_node_init n w p = Some (Inr (r1, w1))" "0 \<le> r1"
      "prefetch (cls (heap w1 p)) = Some cb" "cb (priv (heap w1 p)) = (r2, pr)" "0 \<le> r2"
      "rc = 0"
      "w' = upd (upd (LOG (LOG_PREFETCH p) w1) p (\<lambda>nd. nd\<lparr>priv := pr\<rparr>)) p
              (\<lambda>nd. nd\<lparr>state := STATE_READY\<rparr>)"
proof (cases "state (heap w p) = STATE_READY")
  case True
  with assms have "rc = 0" "w' = w" by (simp_all add: node_prefetch_def)
  with True show ?thesis by (rule ready)
next
  case False
  with assms have e: "then_ok (ngli_node_init n w p)
          (\<lambda>w1. then_ok
            (case prefetch (cls (heap w1 p)) of
               None \<Rightarrow> ret 0 w1
             | Some cb \<Rightarrow>
                 (case cb (priv (heap w1 p)) of
                    (rc, pr) \<Rightarrow>
                      ret rc (upd (LOG (LOG_PREFETCH p) w1) p (\<lambda>nd. nd\<lparr>priv := pr\<rparr>))))
            (\<lambda>w2. ret 0 (upd w2 p (\<lambda>nd. nd\<lparr>state := STATE_READY\<rparr>)))) = Some (Inr (rc, w'))"
    by (simp add: node_prefetch_def)
  from e show ?thesis
  proof (cases rule: then_okE)
    case stop
    with False init_failed show ?thesis by blast
  next
    case (go r1 w1)
    show ?thesis
    proof (cases "prefetch (cls (heap w1 p))")
      case None
      with go(3) have "rc = 0" "w' = upd w1 p (\<lambda>nd. nd\<lparr>state := STATE_READY\<rparr>)"
        by simp_all
      with False go(1,2) None show ?thesis by (rule no_cb)
    next
      case (Some cb)
      obtain r2 pr where c: "cb (priv (heap w1 p)) = (r2, pr)" by (cases "cb (priv (heap w1 p))")
      show ?thesis
      proof (cases "r2 < 0")
        case True
        with go(3) Some c have "rc = r2" "w' = upd (LOG (LOG_PREFETCH p) w1) p (\<lambda>nd. nd\<lparr>priv := pr\<rparr>)"
          by auto
        with True go False Some c cb_failed show ?thesis by blast
      next
        case nn: False
        with go(3) Some c have "rc = 0" "w' = upd (upd (LOG (LOG_PREFETCH p) w1) p (\<lambda>nd. nd\<lparr>priv := pr\<rparr>)) p
              (\<lambda>nd. nd\<lparr>state := STATE_READY\<rparr>)"
          by auto
        with nn go False Some c cb_ok [of r1 w1 cb r2 pr] show ?thesis by simp
      qed
    qed
  qed
qed


lemma init_rel_READY:
  assumes "init_rel w w'"
  shows "(state (heap w' q) = STATE_READY) = (state (heap w q) = STATE_READY)"
proof -
  from assms have "state (heap w' q) = state (heap w q)
            \<or> state (heap w q) = STATE_UNINITIALIZED \<and> state (heap w' q) = STATE_INITIALIZED"
    unfolding init_rel_def by blast
  then show ?thesis by auto
qed

lemma init_rel_prefetches: "init_rel w w' \<Longrightarrow> prefetches c w' = prefetches c w"
  by (auto simp: init_rel_def prefetches_def count_list_0_iff)

lemma once_rel_init: "init_rel w w' \<Longrightarrow> once_rel c rc w w'"
  using init_rel_prefetches [of w w' c] init_rel_READY [of w w' c]
  by (simp add: once_rel_def init_rel_def)

lemma composes_once_rel: "composes (once_rel c)"
  unfolding composes_def
proof (intro conjI allI impI)
  fix w show "once_rel c 0 w w" by (simp add: once_rel_def hdr_kept_refl)
next
  fix rc1 rc w w1 w'
  assume a: "once_rel c rc1 w w1" and r: "0 \<le> rc1" and b: "once_rel c rc w1 w'"
  from a b have h: "hdr_kept w w'" unfolding once_rel_def using hdr_kept_trans by blast
  from a have ia: "is_active (heap w1 c) = is_active (heap w c)"
    by (simp add: once_rel_def hdr_kept_def)
  from h have ib: "is_active (heap w' c) = is_active (heap w c)"
    by (simp add: hdr_kept_def)
  have p: "prefetches c w1 = prefetches c w \<or> prefetches c w1 = prefetches c w + 1"
    using a unfolding once_rel_def by linarith
  from p show "once_rel c rc w w'"
  proof
    assume e: "prefetches c w1 = prefetches c w"
    have g1: "prefetches c w \<le> prefetches c w'" "prefetches c w' \<le> prefetches c w + 1"
      using b e unfolding once_rel_def by simp_all
    have g2: "prefetches c w' = prefetches c w \<and> state (heap w' c) = STATE_READY"
      if "state (heap w c) = STATE_READY \<and> is_active (heap w c) \<noteq> 0"
    proof -
      from that a have "state (heap w1 c) = STATE_READY" unfolding once_rel_def by blast
      with that ia b e show ?thesis unfolding once_rel_def by simp
    qed
    have g3: "state (heap w' c) = STATE_READY \<and> is_active (heap w' c) \<noteq> 0"
      if "prefetches c w' = prefetches c w + 1 \<and> 0 \<le> rc"
      using that b e unfolding once_rel_def by simp
    from h g1 g2 g3 show ?thesis unfolding once_rel_def by blast
  next
    assume e: "prefetches c w1 = prefetches c w + 1"
    with a r have s1: "state (heap w1 c) = STATE_READY" "is_active (heap w1 c) \<noteq> 0"
      unfolding once_rel_def by blast+
    with b have k: "prefetches c w' = prefetches c w1" "state (heap w' c) = STATE_READY"
      unfolding once_rel_def by blast+
    have f: "\<not> (state (heap w c) = STATE_READY \<and> is_active (heap w c) \<noteq> 0)"
      using a e unfolding once_rel_def by auto
    from s1 ia ib have act: "is_active (heap w' c) \<noteq> 0" by simp
    from h k e f act show ?thesis unfolding once_rel_def by simp
  qed
qed

lemma once_relI2:
  "once_rel c r1 w w1 \<Longrightarrow> 0 \<le> r1 \<Longrightarrow> once_rel c rc w1 w' \<Longrightarrow> once_rel c rc w w'"
  using composes_once_rel unfolding composes_def by blast

lemma once_rel_prefetch_steps:
  assumes "state (heap w1 p) \<noteq> STATE_READY" "is_active (heap w1 p) \<noteq> 0"
  shows "once_rel c 0 w1 (upd w1 p (\<lambda>nd. nd\<lparr>state := STATE_READY\<rparr>))"
    and "rc < 0 \<Longrightarrow> once_rel c rc w1 (upd (LOG (LOG_PREFETCH p) w1) p (\<lambda>nd. nd\<lparr>priv := pr\<rparr>))"
    and "once_rel c 0 w1 (upd (upd (LOG (LOG_PREFETCH p) w1) p (\<lambda>nd. nd\<lparr>priv := pr\<rparr>)) p
              (\<lambda>nd. nd\<lparr>state := STATE_READY\<rparr>))"
  using assms by (auto simp: once_rel_def hdr_kept_def prefetches_def)

lemma prefetch_once_rel:
  assumes "node_prefetch n w p = Some (Inr (rc, w'))" "is_active (heap w p) \<noteq> 0"
  shows "once_rel c rc w w'"
  using assms(1)
proof (cases rule: node_prefetchE)
  case ready
  then show ?thesis using composes_once_rel by (simp add: composes_def)
next
  case init_failed
  then show ?thesis using init_init_rel once_rel_init by blast
next
  case (no_cb r1 w1)
  from no_cb(2) have i: "init_rel w w1" by (rule init_init_rel)
  from i no_cb(1) have s: "state (heap w1 p) \<noteq> STATE_READY" by (simp add: init_rel_READY)
  from i assms(2) have a: "is_active (heap w1 p) \<noteq> 0" by (simp add: init_rel_def hdr_kept_def)
  from once_rel_init [OF i] no_cb(3) once_rel_prefetch_steps(1) [OF s a] show ?thesis
    unfolding no_cb(5,6) by (rule once_relI2)
next
  case (cb_failed r1 w1 cb pr)
  from cb_failed(2) have i: "init_rel w w1" by (rule init_init_rel)
  from i cb_failed(1) have s: "state (heap w1 p) \<noteq> STATE_READY" by (simp add: init_rel_READY)
  from i assms(2) have a: "is_active (heap w1 p) \<noteq> 0" by (simp add: init_rel_def hdr_kept_def)
  from once_rel_init [OF i] cb_failed(3) once_rel_prefetch_steps(2) [OF s a cb_failed(6)]
  show ?thesis unfolding cb_failed(7) by (rule once_relI2)
next
  case (cb_ok r1 w1 cb pr r2)
  from cb_ok(2) have i: "init_rel w w1" by (rule init_init_rel)
  from i cb_ok(1) have s: "state (heap w1 p) \<noteq> STATE_READY" by (simp add: init_rel_READY)
  from i assms(2) have a: "is_active (heap w1 p) \<noteq> 0" by (simp add: init_rel_def hdr_kept_def)
  from once_rel_init [OF i] cb_ok(3) once_rel_prefetch_steps(3) [OF s a] show ?thesis
    unfolding cb_ok(7,8) by (rule once_relI2)
qed

lemma release_once_rel:
  assumes "node_release w p = Inr w'" "is_active (heap w p) = 0"
  shows "once_rel c 0 w w'"
  using assms
  by (auto simp: node_release_def once_rel_def hdr_kept_def prefetches_def Let_def
      split: if_splits option.splits)

lemma honor_once_rel:
  "ngli_node_honor_release_prefetch n w p t = Some (Inr (rc, w')) \<Longrightarrow> once_rel c rc w w'"
proof (induction n arbitrary: w p rc w')
  case 0
  then show ?case by simp
next
  case (Suc n)
  have r0: "\<And>w. once_rel c 0 w w" using composes_once_rel by (simp add: composes_def)
  show ?case
  proof (cases "dbl_ne (visit_time (heap w p)) t")
    case True
    with Suc.prems show ?thesis by (simp add: r0)
  next
    case False
    with Suc.prems have e: "then_ok
          (for_params (\<lambda>w1 child. ngli_node_honor_release_prefetch n w1 child t)
             (\<lambda>w1. flds (priv (heap w1 p))) w (params (cls (heap w p))))
          (\<lambda>w2. if is_active (heap w2 p) \<noteq> 0 then node_prefetch n w2 p
                else (case node_release w2 p of
                        Inl e \<Rightarrow> Some (Inl e)
                      | Inr w3 \<Rightarrow> ret 0 w3)) = Some (Inr (rc, w'))"
      by simp
    have kids: "once_rel c r w1 w2"
      if "for_params (\<lambda>w1 child. ngli_node_honor_release_prefetch n w1 child t) rd w1 pars
            = Some (Inr (r, w2))" for rd w1 pars r w2
      using composes_once_rel _ that
      by (rule for_params_rel [where R = "once_rel c"]) (rule Suc.IH)
    from e show ?thesis
    proof (rule then_ok_rel [OF composes_once_rel])
      fix rc1 w1
      assume "for_params (\<lambda>w1 child. ngli_node_honor_release_prefetch n w1 child t)
             (\<lambda>w1. flds (priv (heap w1 p))) w (params (cls (heap w p))) = Some (Inr (rc1, w1))"
      then show "once_rel c rc1 w w1" by (rule kids)
    next
      fix rc1 w1
      assume d: "(if is_active (heap w1 p) \<noteq> 0 then node_prefetch n w1 p
                else (case node_release w1 p of
                        Inl e \<Rightarrow> Some (Inl e)
                      | Inr w3 \<Rightarrow> ret 0 w3)) = Some (Inr (rc, w'))"
      show "once_rel c rc w1 w'"
      proof (cases "is_active (heap w1 p) \<noteq> 0")
        case True
        with d show ?thesis using prefetch_once_rel by simp
      next
        case False
        with d show ?thesis using release_once_rel by (auto split: sum.splits)
      qed
    qed
  qed
qed


subsection \<open>Visit\<close>

lemma visit_rel_refl: "visit_rel a t w w"
  by (simp add: visit_rel_def)

lemma visit_rel_trans:
  assumes "visit_rel a t w w1" "visit_rel a t w1 w2"
  shows "visit_rel a t w w2"
proof -
  from assms obtain l1 l2 where "log w1 = log w @ l1" "set l1 \<subseteq> range LOG_INIT"
    "log w2 = log w1 @ l2" "set l2 \<subseteq> range LOG_INIT"
    unfolding visit_rel_def by blast
  then have "log w2 = log w @ (l1 @ l2) \<and> set (l1 @ l2) \<subseteq> range LOG_INIT" by simp
  then have l: "\<exists>ls. log w2 = log w @ ls \<and> set ls \<subseteq> range LOG_INIT" by blast
  have "cls (heap w2 q) = cls (heap w q) \<and> ctx (heap w2 q) = ctx (heap w q)
        \<and> last_update_time (heap w2 q) = last_update_time (heap w q)
        \<and> glstates (heap w2 q) = glstates (heap w q)
        \<and> refcount (heap w2 q) = refcount (heap w q)
        \<and> (visit (cls (heap w q)) = None \<longrightarrow>
             (is_active (heap w2 q) = is_active (heap w q) \<or> is_active (heap w2 q) = a)
           \<and> (visit_time (heap w2 q) = visit_time (heap w q) \<or> visit_time (heap w2 q) = t))" for q
    using assms unfolding visit_rel_def by (elim conjE allE [of _ q]) auto
  with l assms show ?thesis unfolding visit_rel_def by simp
qed

lemma visit_rel_init: "init_rel w w' \<Longrightarrow> visit_rel a t w w'"
  by (simp add: visit_rel_def init_rel_def hdr_kept_def)

lemma composes_visit_from: "composes (visit_from c a t)"
  unfolding composes_def
proof (intro conjI allI impI)
  fix w show "visit_from c a t 0 w w" by (simp add: visit_from_def visit_rel_refl)
next
  fix rc1 rc w w1 w'
  assume x: "visit_from c a t rc1 w w1" and y: "visit_from c a t rc w1 w'"
  show "visit_from c a t rc w w'"
    unfolding visit_from_def
  proof
    assume h: "is_active (heap w c) = a \<and> visit (cls (heap w c)) = None"
    with x have 1: "visit_rel a t w w1" by (simp add: visit_from_def)
    with h have "is_active (heap w1 c) = a \<and> visit (cls (heap w1 c)) = None"
      unfolding visit_rel_def by (elim conjE allE [of _ c]) auto
    with y have "visit_rel a t w1 w'" by (simp add: visit_from_def)
    with 1 show "visit_rel a t w w'" by (rule visit_rel_trans)
  qed
qed

lemma visit_visit_rel:
  "ngli_node_visit n w p frm t = Some (Inr (rc, w')) \<Longrightarrow>
   visit_rel (parent_activity w frm) t w w'"
proof (induction n arbitrary: w p frm rc w')
  case 0
  then show ?case by simp
next
  case (Suc n)
  define a where "a = parent_activity w frm"
  from Suc.prems have e: "then_ok (ngli_node_init n w p)
       (\<lambda>w1. case visit (cls (heap w1 p)) of
          Some cb \<Rightarrow>
            (case cb (map_option (\<lambda>f. is_active (heap w1 f)) frm) t
                    (is_active (heap w1 p), visit_time (heap w1 p), priv (heap w1 p)) of
               (rc, a, vt, pr) \<Rightarrow>
                 ret rc (upd w1 p (\<lambda>nd. nd\<lparr>is_active := a, visit_time := vt, priv := pr\<rparr>)))
        | None \<Rightarrow>
            then_ok
              (for_params (\<lambda>w2 child. ngli_node_visit n w2 child (Some p) t)
                 (\<lambda>w2. flds (priv (heap w2 p)))
                 (upd w1 p (\<lambda>nd. nd\<lparr>is_active := (case frm of
                                                      Some f \<Rightarrow> is_active (heap w1 f)
                                                    | None \<Rightarrow> 1),
                                      visit_time := t\<rparr>))
                 (params (cls (heap w1 p))))
              (\<lambda>w3. ret 0 w3)) = Some (Inr (rc, w'))"
    by simp
  from e show ?case unfolding a_def [symmetric]
  proof (cases rule: then_okE)
    case stop
    then show "visit_rel a t w w'" using init_init_rel visit_rel_init by blast
  next
    case (go r1 w1)
    from go(1) have i: "init_rel w w1" by (rule init_init_rel)
    then have v1: "visit_rel a t w w1" by (rule visit_rel_init)
    from i have a1: "(case frm of Some f \<Rightarrow> is_active (heap w1 f) | None \<Rightarrow> 1) = a"
      by (simp add: a_def parent_activity_def init_rel_def hdr_kept_def split: option.splits)
    show "visit_rel a t w w'"
    proof (cases "visit (cls (heap w1 p))")
      case (Some cb)
      with go(3) have "visit_rel a t w1 w'"
        by (auto simp: visit_rel_def split: prod.splits)
      with v1 show ?thesis by (rule visit_rel_trans)
    next
      case None
      define w2 where "w2 = upd w1 p (\<lambda>nd. nd\<lparr>is_active := a, visit_time := t\<rparr>)"
      have v2: "visit_rel a t w1 w2" by (simp add: w2_def visit_rel_def)
      have p2: "is_active (heap w2 p) = a \<and> visit (cls (heap w2 p)) = None"
        using None by (simp add: w2_def)
      from go(3) None a1 obtain r3 where
        l: "for_params (\<lambda>w2 child. ngli_node_visit n w2 child (Some p) t)
                 (\<lambda>w2. flds (priv (heap w2 p))) w2 (params (cls (heap w1 p))) = Some (Inr (r3, w'))"
        by (auto simp: w2_def elim!: then_okE)
      have "visit_from p a t r3 w2 w'"
        using composes_visit_from _ l
      proof (rule for_params_rel [where R = "visit_from p a t"])
        fix w c rc w'
        assume "ngli_node_visit n w c (Some p) t = Some (Inr (rc, w'))"
        then have "visit_rel (parent_activity w (Some p)) t w w'" by (rule Suc.IH)
        then show "visit_from p a t rc w w'"
          by (auto simp: visit_from_def parent_activity_def)
      qed
      with p2 have "visit_rel a t w2 w'" by (simp add: visit_from_def)
      with v1 v2 show ?thesis using visit_rel_trans by blast
    qed
  qed
qed

subsection \<open>Evaluating the scenes\<close>

lemma status_of_ret [simp]: "status_of (ret rc w) = Some rc"
  and world_of_ret [simp]: "world_of (ret rc w) = w"
  and status_of_None [simp]: "status_of None = None"
  by (simp_all add: status_of_def world_of_def ret_def)

lemma status_of_SomeD: "status_of r = Some rc \<Longrightarrow> r = Some (Inr (rc, world_of r))"
  by (auto simp: status_of_def world_of_def split: option.splits sum.splits)

lemmas ex_defs = world0_def attached_def node_create_def ok_class_def plain_class_def

lemmas scene_defs = diamond_def with_node_def with_nodelist_def group_class_def wrap_class_def
   zero_priv_def

lemma diamond_visit:
  "ngli_node_visit 4 diamond 0 None (Dbl 0) = Some (Inr (0, diamond_visited))"
  unfolding diamond_visited_def
  by (rule status_of_SomeD) (simp add: scene_defs ex_defs eval_nat_numeral)

lemma diamond_honor:
  "ngli_node_honor_release_prefetch 4 diamond_visited 0 (Dbl 0)
     = Some (Inr (0, diamond_reconciled))"
  unfolding diamond_reconciled_def
  by (rule status_of_SomeD)
    (simp add: diamond_visited_def scene_defs ex_defs node_prefetch_def eval_nat_numeral)

lemma diamond_log:
  "log diamond_reconciled =
     [LOG_INIT 0, LOG_INIT 1, LOG_INIT 3, LOG_INIT 2,
      LOG_PREFETCH 3, LOG_PREFETCH 1, LOG_PREFETCH 2, LOG_PREFETCH 0]"
  by (simp add: diamond_reconciled_def diamond_visited_def scene_defs ex_defs
      node_prefetch_def eval_nat_numeral)




subsection \<open>Reconciliation\<close>


lemma init_log_grows: "ngli_node_init n w p = Some (Inr (rc, w')) \<Longrightarrow> log_grows rc w w'"
  using init_init_rel [of n w p rc w'] unfolding init_rel_def log_grows_def by blast




lemma then_ok_assoc_ret:
  "then_ok (then_ok r (\<lambda>w1. ret 0 w1)) k = then_ok r k"
  by (auto simp: then_ok_def ret_def split: option.splits sum.splits)

lemma for_nodes_single: "then_ok (for_nodes f w [c]) k = then_ok (f w c) k"
  by (simp add: then_ok_assoc_ret)










subsection \<open>Prefetch at most once\<close>

lemma visit_prefetches:
  assumes "ngli_node_visit n w p frm t = Some (Inr (rc, w'))"
  shows "prefetches c w' = prefetches c w"
proof -
  from visit_visit_rel [OF assms] obtain ls where "log w' = log w @ ls" "set ls \<subseteq> range LOG_INIT"
    unfolding visit_rel_def by blast
  then show ?thesis by (auto simp: prefetches_def count_list_0_iff)
qed

text \<open>
  C5. \<open>node_prefetch\<close> on a ready node returns 0 and leaves the world, log included, as
  it is. One reconcile pass from any node \<open>q\<close>, over any graph, adds at most one
  \<open>PREFETCH\<close> line, that is one call of the class prefetch callback, for any node \<open>c\<close>,
  and so does a visit of \<open>q\<close> followed by the reconcile pass.
\<close>

theorem prefetch_at_most_once:
  "(state (heap w p) = STATE_READY \<longrightarrow> node_prefetch n w p = ret 0 w)
   \<and> (ngli_node_honor_release_prefetch m w1 q t = Some (Inr (r2, w2)) \<longrightarrow>
        prefetches c w2 \<le> prefetches c w1 + 1)
   \<and> (ngli_node_visit k w0 q None t = Some (Inr (r1, w1)) \<longrightarrow>
      ngli_node_honor_release_prefetch m w1 q t = Some (Inr (r2, w2)) \<longrightarrow>
        prefetches c w2 \<le> prefetches c w0 + 1)"
proof (intro conjI impI)
  assume "state (heap w p) = STATE_READY"
  then show "node_prefetch n w p = ret 0 w" by (simp add: node_prefetch_def)
next
  assume "ngli_node_honor_release_prefetch m w1 q t = Some (Inr (r2, w2))"
  then have "once_rel c r2 w1 w2" by (rule honor_once_rel)
  then show "prefetches c w2 \<le> prefetches c w1 + 1" by (simp add: once_rel_def)
next
  assume v: "ngli_node_visit k w0 q None t = Some (Inr (r1, w1))"
    and "ngli_node_honor_release_prefetch m w1 q t = Some (Inr (r2, w2))"
  then have "once_rel c r2 w1 w2" using honor_once_rel by blast
  then have "prefetches c w2 \<le> prefetches c w1 + 1" by (simp add: once_rel_def)
  with visit_prefetches [OF v, of c] show "prefetches c w2 \<le> prefetches c w0 + 1" by simp
qed

text \<open>
  The theorem of C5 on the diamond: node 3 is reached through 1 and through 2, and is
  prefetched exactly once.
\<close>

theorem prefetch_at_most_once_witness:
  "state (heap diamond_reconciled 3) = STATE_READY
   \<and> node_prefetch 1 diamond_reconciled 3 = ret 0 diamond_reconciled
   \<and> ngli_node_visit 4 diamond 0 None (Dbl 0) = Some (Inr (0, diamond_visited))
   \<and> ngli_node_honor_release_prefetch 4 diamond_visited 0 (Dbl 0)
       = Some (Inr (0, diamond_reconciled))
   \<and> prefetches 3 diamond_reconciled \<le> prefetches 3 diamond_visited + 1
   \<and> prefetches 3 diamond_reconciled \<le> prefetches 3 diamond + 1
   \<and> prefetches 3 diamond = 0 \<and> prefetches 3 diamond_reconciled = 1"
proof -
  have r: "state (heap diamond_reconciled 3) = STATE_READY"
    by (simp add: diamond_reconciled_def diamond_visited_def scene_defs ex_defs
      node_prefetch_def eval_nat_numeral)
  note t = prefetch_at_most_once [where w = diamond_reconciled and p = 3 and n = 1
      and m = 4 and ?w1.0 = diamond_visited and q = 0 and t = "Dbl 0" and ?r2.0 = 0
      and ?w2.0 = diamond_reconciled and c = 3 and k = 4 and ?w0.0 = diamond and ?r1.0 = 0]
  from t r have a: "node_prefetch 1 diamond_reconciled 3 = ret 0 diamond_reconciled" by blast
  from t diamond_honor have b: "prefetches 3 diamond_reconciled \<le> prefetches 3 diamond_visited + 1"
    by blast
  from t diamond_visit diamond_honor
  have c: "prefetches 3 diamond_reconciled \<le> prefetches 3 diamond + 1" by blast
  have d: "prefetches 3 diamond = 0" by (simp add: prefetches_def scene_defs ex_defs)
  have e: "prefetches 3 diamond_reconciled = 1" by (simp add: prefetches_def diamond_log)
  from r a diamond_visit diamond_honor b c d e show ?thesis by blast
qed

subsection \<open>Visit: the last writer wins\<close>


















subsection \<open>Update\<close>




text \<open>
  C6, as the code has it. For a node whose class has an update callback, and a time
  that differs (in the sense of C's \<open>!=\<close>) from the node's \<open>last_update_time\<close>, a
  successful \<open>ngli_node_update\<close> has run \<open>ngli_node_init\<close> with success (the node is no
  longer uninitialized), then \<open>node_prefetch\<close> with success (the node is ready), then
  the class callback on the private data, and has stamped \<open>last_update_time\<close> last:
  the node ends ready and stamped.
\<close>

theorem ngli_node_update_first_call:
  assumes cb: "update (cls (heap w p)) = Some cb"
    and ne: "dbl_ne (last_update_time (heap w p)) t"
    and run: "ngli_node_update n w p t = Some (Inr (rc, w'))"
    and ok: "0 \<le> rc"
  shows "\<exists>r1 w1 r2 w2 r3 pr.
           ngli_node_init n w p = Some (Inr (r1, w1)) \<and> 0 \<le> r1
         \<and> state (heap w1 p) \<noteq> STATE_UNINITIALIZED
         \<and> node_prefetch n w1 p = Some (Inr (r2, w2)) \<and> 0 \<le> r2
         \<and> state (heap w2 p) = STATE_READY
         \<and> cb t (priv (heap w2 p)) = (r3, pr) \<and> 0 \<le> r3
         \<and> w' = upd (upd (LOG (LOG_UPDATE p t) w2) p (\<lambda>nd. nd\<lparr>priv := pr\<rparr>)) p
                  (\<lambda>nd. nd\<lparr>last_update_time := t\<rparr>)
         \<and> rc = 0 \<and> state (heap w' p) = STATE_READY \<and> last_update_time (heap w' p) = t"
proof -
  from run obtain r1 w1 where i: "ngli_node_init n w p = Some (Inr (r1, w1))"
    and r1: "0 \<le> r1"
    and rest: "(case update (cls (heap w1 p)) of
          None \<Rightarrow> ret 0 w1
        | Some cb \<Rightarrow>
            then_ok
              (if dbl_ne (last_update_time (heap w1 p)) t then
                 then_ok (node_prefetch n w1 p)
                   (\<lambda>w2. case cb t (priv (heap w2 p)) of
                      (rc, pr) \<Rightarrow>
                        ret rc (upd (LOG (LOG_UPDATE p t) w2) p (\<lambda>nd. nd\<lparr>priv := pr\<rparr>)))
               else ret 0 (LOG (LOG_SKIP p t) w1))
              (\<lambda>w3. ret 0 (upd w3 p (\<lambda>nd. nd\<lparr>last_update_time := t\<rparr>)))) = Some (Inr (rc, w'))"
    unfolding ngli_node_update_def using ok by (auto elim!: then_okE)
  from i have k: "hdr_kept w w1" using init_init_rel init_rel_def by blast
  then have c1: "update (cls (heap w1 p)) = Some cb"
    and n1: "dbl_ne (last_update_time (heap w1 p)) t"
    using cb ne by (simp_all add: hdr_kept_def)
  from i r1 have s1: "state (heap w1 p) \<noteq> STATE_UNINITIALIZED" by (rule init_ok_state)
  from rest c1 n1 ok obtain r2 w2 r3 pr where
    pf: "node_prefetch n w1 p = Some (Inr (r2, w2))" and r2: "0 \<le> r2"
    and u: "cb t (priv (heap w2 p)) = (r3, pr)" and r3: "0 \<le> r3"
    and w': "w' = upd (upd (LOG (LOG_UPDATE p t) w2) p (\<lambda>nd. nd\<lparr>priv := pr\<rparr>)) p
                  (\<lambda>nd. nd\<lparr>last_update_time := t\<rparr>)"
    and rc: "rc = 0"
    by (auto elim!: then_okE split: prod.splits)
  from pf r2 have s2: "state (heap w2 p) = STATE_READY" by (rule prefetch_ok_state)
  from w' s2 have "state (heap w' p) = STATE_READY \<and> last_update_time (heap w' p) = t"
    by simp
  with i r1 s1 pf r2 s2 u r3 w' rc show ?thesis by blast
qed

text \<open>The theorem of C6 at a freshly created, attached node with an update callback.\<close>

theorem ngli_node_update_first_call_witness:
  "update (cls (heap ex6_w 0)) = Some (\<lambda>t pr. (0, pr))
   \<and> dbl_ne (last_update_time (heap ex6_w 0)) (Dbl 0)
   \<and> ngli_node_update 1 ex6_w 0 (Dbl 0)
       = Some (Inr (0, world_of (ngli_node_update 1 ex6_w 0 (Dbl 0))))
   \<and> state (heap (world_of (ngli_node_update 1 ex6_w 0 (Dbl 0))) 0) = STATE_READY
   \<and> last_update_time (heap (world_of (ngli_node_update 1 ex6_w 0 (Dbl 0))) 0) = Dbl 0"
proof -
  have h1: "update (cls (heap ex6_w 0)) = Some (\<lambda>t pr. (0, pr))"
    by (simp add: ex6_w_def ex_defs)
  have h2: "dbl_ne (last_update_time (heap ex6_w 0)) (Dbl 0)"
    by (simp add: ex6_w_def ex_defs)
  have h3: "ngli_node_update 1 ex6_w 0 (Dbl 0)
       = Some (Inr (0, world_of (ngli_node_update 1 ex6_w 0 (Dbl 0))))"
    by (rule status_of_SomeD)
      (simp add: ngli_node_update_def node_prefetch_def ex6_w_def ex_defs)
  have h4: "(0::int) \<le> 0" by simp
  from ngli_node_update_first_call [OF h1 h2 h3 h4]
  have "state (heap (world_of (ngli_node_update 1 ex6_w 0 (Dbl 0))) 0) = STATE_READY
   \<and> last_update_time (heap (world_of (ngli_node_update 1 ex6_w 0 (Dbl 0))) 0) = Dbl 0"
    by blast
  with h1 h2 h3 show ?thesis by blast
qed

text \<open>
  C6 as stated also covers the classes without an update callback. For such a class
  the body of \<open>ngli_node_update\<close> is skipped: the call succeeds, the node is initialized
  but not prefetched, and \<open>last_update_time\<close> keeps the value \<open>-1\<close> of \<open>node_create\<close>.
\<close>

theorem ngli_node_update_without_callback:
  "update (cls (heap cex6_w 0)) = None
   \<and> dbl_ne (last_update_time (heap cex6_w 0)) (Dbl 0)
   \<and> status_of (ngli_node_update 1 cex6_w 0 (Dbl 0)) = Some 0
   \<and> state (heap (world_of (ngli_node_update 1 cex6_w 0 (Dbl 0))) 0) = STATE_INITIALIZED
   \<and> last_update_time (heap (world_of (ngli_node_update 1 cex6_w 0 (Dbl 0))) 0) = Dbl (- 1)
   \<and> log (world_of (ngli_node_update 1 cex6_w 0 (Dbl 0))) = [LOG_INIT 0]"
  by (simp add: ngli_node_update_def node_prefetch_def cex6_w_def ex_defs)





subsection \<open>Parameter changes\<close>

lemma memset_clear_by:
  "memset pr off len = clear_by (\<lambda>i n. off \<le> i \<and> i + n \<le> off + len) pr"
  by (simp add: memset_def clear_by_def)

lemma clear_by_twice:
  "clear_by h (clear_by g pr) = clear_by (\<lambda>i n. g i n \<or> h i n) pr"
  by (auto simp: clear_by_def fun_eq_iff)

lemma reset_loop_hit:
  "(case reset_loop pr cur pars of
      (pr', c') \<Rightarrow> memset pr' c' (size_t_sub sz c')) = clear_by (hit cur pars sz) pr"
proof (induction pars arbitrary: pr cur)
  case Nil
  show ?case by (simp add: memset_clear_by)
next
  case (Cons par pars)
  show ?case
  proof (cases "offset par = cur")
    case True
    then show ?thesis using Cons.IH [of pr "offset par + opt_sizes (par_type par)"] by simp
  next
    case False
    have "(\<lambda>i n. (cur \<le> i \<and> i + n \<le> cur + size_t_sub (offset par) cur)
             \<or> hit (offset par + opt_sizes (par_type par)) pars sz i n)
        = hit cur (par # pars) sz"
      using False by (simp add: fun_eq_iff)
    with False show ?thesis
      using Cons.IH [of "memset pr cur (size_t_sub (offset par) cur)"
          "offset par + opt_sizes (par_type par)"]
      by (simp add: memset_clear_by clear_by_twice)
  qed
qed

lemma opt_sizes_pos: "0 < opt_sizes ty"
  by (cases ty) simp_all

lemma covered_Cons:
  "covered (par # pars) i =
     (offset par \<le> i \<and> i < offset par + opt_sizes (par_type par) \<or> covered pars i)"
  by (simp add: covered_def)

lemma uncovered_iff:
  "uncovered pars sz off n \<longleftrightarrow> off + n \<le> sz \<and> (\<forall>i \<in> {off..<off + n}. \<not> covered pars i)"
  by (simp add: uncovered_def list_all_iff)

lemma uncovered_Cons:
  "uncovered (par # pars) sz i n \<Longrightarrow> uncovered pars sz i n"
  by (auto simp: uncovered_iff covered_Cons)

lemma uncovered_hit:
  "uncovered pars sz i n \<Longrightarrow> 0 < n \<Longrightarrow> cur \<le> i \<Longrightarrow> hit cur pars sz i n"
proof (induction pars arbitrary: cur)
  case Nil
  then show ?case by (simp add: uncovered_iff size_t_sub_def)
next
  case (Cons par pars)
  define nxt where "nxt = offset par + opt_sizes (par_type par)"
  from Cons.prems(1) have u: "uncovered pars sz i n" by (rule uncovered_Cons)
  show ?case
  proof (cases "nxt \<le> i")
    case True
    from Cons.IH [OF u Cons.prems(2) True] show ?thesis by (simp add: nxt_def)
  next
    case False
    have ni: "\<not> (offset par \<le> i \<and> i < nxt)"
      using Cons.prems(1,2) by (auto simp: uncovered_iff covered_Cons nxt_def)
    with False have lt: "i < offset par" by simp
    have "i + n \<le> offset par"
    proof (rule ccontr)
      assume "\<not> i + n \<le> offset par"
      with lt have "offset par \<in> {i..<i + n}" by simp
      moreover have "covered (par # pars) (offset par)"
        using opt_sizes_pos [of "par_type par"] by (simp add: covered_Cons)
      ultimately show False using Cons.prems(1) by (auto simp: uncovered_iff)
    qed
    with lt Cons.prems(3) show ?thesis by (simp add: size_t_sub_def)
  qed
qed

lemma laid_out_le: "laid_out cur pars sz \<Longrightarrow> cur \<le> sz"
proof (induction pars arbitrary: cur)
  case Nil
  then show ?case by simp
next
  case (Cons par pars)
  from Cons.prems have "cur \<le> offset par"
    and "laid_out (offset par + opt_sizes (par_type par)) pars sz" by simp_all
  with Cons.IH [of "offset par + opt_sizes (par_type par)"] show ?case by simp
qed

lemma laid_out_covered:
  "laid_out cur pars sz \<Longrightarrow> covered pars i \<Longrightarrow> cur \<le> i \<and> i < sz"
proof (induction pars arbitrary: cur)
  case Nil
  then show ?case by (simp add: covered_def)
next
  case (Cons par pars)
  from Cons.prems(1) have c: "cur \<le> offset par"
    and l: "laid_out (offset par + opt_sizes (par_type par)) pars sz" by simp_all
  show ?case
  proof (cases "covered pars i")
    case True
    from Cons.IH [OF l True] c show ?thesis by simp
  next
    case False
    with Cons.prems(2) have h: "offset par \<le> i" "i < offset par + opt_sizes (par_type par)"
      by (simp_all add: covered_Cons)
    have "offset par + opt_sizes (par_type par) \<le> sz"
      using l by (rule laid_out_le)
    with h c show ?thesis by simp
  qed
qed

lemma laid_out_hit:
  "laid_out cur pars sz \<Longrightarrow> hit cur pars sz i n \<Longrightarrow> 0 < n \<Longrightarrow>
   uncovered pars sz i n \<and> cur \<le> i"
proof (induction pars arbitrary: cur)
  case Nil
  then show ?case by (auto simp: uncovered_iff covered_def size_t_sub_def)
next
  case (Cons par pars)
  define nxt where "nxt = offset par + opt_sizes (par_type par)"
  from Cons.prems(1) have c: "cur \<le> offset par" and l: "laid_out nxt pars sz"
    by (simp_all add: nxt_def)
  have low: "nxt \<le> j \<and> j < sz" if "covered pars j" for j
    using laid_out_covered [OF l that] .
  have nsz: "nxt \<le> sz" using l by (rule laid_out_le)
  from Cons.prems(2) consider
    (a) "offset par \<noteq> cur" "cur \<le> i" "i + n \<le> cur + size_t_sub (offset par) cur"
    | (b) "hit nxt pars sz i n" by (auto simp: nxt_def)
  then show ?case
  proof cases
    case a
    with c have e: "i + n \<le> offset par" by (simp add: size_t_sub_def)
    have "\<not> covered (par # pars) j" if "j \<in> {i..<i + n}" for j
      using that e low [of j] by (auto simp: covered_Cons nxt_def)
    moreover have "i + n \<le> sz" using e nsz by (simp add: nxt_def)
    ultimately show ?thesis using a(2) by (auto simp: uncovered_iff)
  next
    case b
    from Cons.IH [OF l b Cons.prems(3)] have u: "uncovered pars sz i n" and ge: "nxt \<le> i"
      by simp_all
    from ge have "\<not> (offset par \<le> j \<and> j < nxt)" if "j \<in> {i..<i + n}" for j
      using that by auto
    with u have "uncovered (par # pars) sz i n"
      by (auto simp: uncovered_iff covered_Cons nxt_def)
    moreover from ge c have "cur \<le> i" by (simp add: nxt_def)
    ultimately show ?thesis by simp
  qed
qed

lemma clear_by_cong:
  assumes "\<And>i n. 0 < n \<Longrightarrow> h i n = g i n"
  shows "clear_by h pr = clear_by g pr"
  using assms by (simp add: clear_by_def fun_eq_iff)

lemma hit_clean: "clean pars sz (clear_by (hit 0 pars sz) pr)"
  using uncovered_hit [of pars sz _ _ 0]
  by (simp add: clean_def clear_by_def)

lemma hit_laid_out:
  assumes "laid_out 0 pars sz"
  shows "clear_by (hit 0 pars sz) pr = clear_by (uncovered pars sz) pr"
proof (rule clear_by_cong)
  fix i n :: nat
  assume "0 < n"
  with laid_out_hit [OF assms, of i n] uncovered_hit [of pars sz i n 0]
  show "hit 0 pars sz i n = uncovered pars sz i n" by blast
qed


lemma reset_non_params_eq:
  "reset_non_params w p =
     upd w p (\<lambda>nd. nd\<lparr>priv :=
       clear_by (hit 0 (params (cls (heap w p))) (priv_size (cls (heap w p)))) (priv (heap w p))\<rparr>)"
  using reset_loop_hit [of "priv_size (cls (heap w p))" "priv (heap w p)" 0
      "params (cls (heap w p))"]
  by (simp add: reset_non_params_def upd_def split: prod.splits)

lemma node_release_attached:
  assumes "ctx (heap w p) \<noteq> None"
  shows "\<exists>w1. node_release w p = Inr w1
     \<and> log w1 = log w @ (if state (heap w p) = STATE_READY \<and> release (cls (heap w p)) \<noteq> None
                          then [LOG_RELEASE p] else [])
     \<and> priv (heap w1 p) = (if state (heap w p) = STATE_READY
                            then call_opt (release (cls (heap w p))) (priv (heap w p))
                            else priv (heap w p))
     \<and> cls (heap w1 p) = cls (heap w p) \<and> ctx (heap w1 p) = ctx (heap w p)"
  using assms
  by (cases "release (cls (heap w p))")
    (auto simp: node_release_def call_opt_def Let_def)

lemma node_uninit_ok:
  assumes att: "ctx (heap w p) \<noteq> None"
    and st: "state (heap w p) = STATE_INITIALIZED \<or> state (heap w p) = STATE_READY"
  shows "\<exists>w'. node_uninit w p = Inr w'
     \<and> state (heap w' p) = STATE_UNINITIALIZED
     \<and> log w' = log w @ teardown_log p (heap w p)
     \<and> priv (heap w' p) =
         clear_by (hit 0 (params (cls (heap w p))) (priv_size (cls (heap w p))))
           (torn_down (heap w p))"
proof -
  from node_release_attached [OF att] obtain w1 where
    r: "node_release w p = Inr w1"
    and l1: "log w1 = log w @ (if state (heap w p) = STATE_READY \<and> release (cls (heap w p)) \<noteq> None
                          then [LOG_RELEASE p] else [])"
    and p1: "priv (heap w1 p) = (if state (heap w p) = STATE_READY
                            then call_opt (release (cls (heap w p))) (priv (heap w p))
                            else priv (heap w p))"
    and c1: "cls (heap w1 p) = cls (heap w p)"
    by blast
  define w2 where "w2 = (case uninit (cls (heap w1 p)) of
                        None \<Rightarrow> w1
                      | Some cb \<Rightarrow>
                          upd (LOG (LOG_UNINIT p) w1) p (\<lambda>nd. nd\<lparr>priv := cb (priv nd)\<rparr>))"
  have c2: "cls (heap w2 p) = cls (heap w p)"
    using c1 by (simp add: w2_def split: option.splits)
  have l2: "log w2 = log w @ teardown_log p (heap w p)"
    using l1 c1 by (simp add: w2_def teardown_log_def split: option.splits)
  have p2: "priv (heap w2 p) = torn_down (heap w p)"
    using p1 c1 by (simp add: w2_def torn_down_def call_opt_def split: option.splits)
  define w' where "w' = upd (reset_non_params w2 p) p (\<lambda>nd. nd\<lparr>state := STATE_UNINITIALIZED\<rparr>)"
  from st att r have "node_uninit w p = Inr w'"
    by (auto simp: node_uninit_def w2_def w'_def)
  moreover have "state (heap w' p) = STATE_UNINITIALIZED" by (simp add: w'_def)
  moreover have "log w' = log w @ teardown_log p (heap w p)"
    using l2 by (simp add: w'_def reset_non_params_eq)
  moreover have "priv (heap w' p) =
         clear_by (hit 0 (params (cls (heap w p))) (priv_size (cls (heap w p))))
           (torn_down (heap w p))"
    using c2 p2 by (simp add: w'_def reset_non_params_eq)
  ultimately show ?thesis by blast
qed

lemma param_write_keeps:
  "cls (snd (param_write sb sp pb nd)) = cls nd
   \<and> ctx (snd (param_write sb sp pb nd)) = ctx nd
   \<and> state (snd (param_write sb sp pb nd)) = state nd"
  by (simp add: param_write_def split: prod.splits)

lemma param_change_ok:
  assumes att: "ctx (heap w p) \<noteq> None"
    and st: "state (heap w p) = STATE_INITIALIZED \<or> state (heap w p) = STATE_READY"
    and wr: "param_write sb sp pb (heap w p) = (rc, nd)"
  shows "\<exists>w'. node_uninit (if rc < 0 then LOG l (upd w p (\<lambda>x. nd)) else upd w p (\<lambda>x. nd)) p = Inr w'
     \<and> state (heap w' p) = STATE_UNINITIALIZED
     \<and> log w' = log w @ (if rc < 0 then [l] else []) @ teardown_log p nd
     \<and> clean (params (cls (heap w p))) (priv_size (cls (heap w p))) (priv (heap w' p))
     \<and> (laid_out 0 (params (cls (heap w p))) (priv_size (cls (heap w p))) \<longrightarrow>
          priv (heap w' p) =
            clear_uncovered (params (cls (heap w p))) (priv_size (cls (heap w p)))
              (torn_down nd))"
proof -
  define wa where "wa = (if rc < 0 then LOG l (upd w p (\<lambda>x. nd)) else upd w p (\<lambda>x. nd))"
  from param_write_keeps [of sb sp pb "heap w p"] wr
  have k: "cls nd = cls (heap w p)" "ctx nd = ctx (heap w p)" "state nd = state (heap w p)"
    by simp_all
  have h: "heap wa p = nd" by (simp add: wa_def)
  have la: "log wa = log w @ (if rc < 0 then [l] else [])" by (simp add: wa_def)
  from att st k h have "ctx (heap wa p) \<noteq> None"
    "state (heap wa p) = STATE_INITIALIZED \<or> state (heap wa p) = STATE_READY"
    by simp_all
  from node_uninit_ok [OF this] obtain w' where
    u: "node_uninit wa p = Inr w'" "state (heap w' p) = STATE_UNINITIALIZED"
      "log w' = log wa @ teardown_log p (heap wa p)"
    and pr: "priv (heap w' p) =
         clear_by (hit 0 (params (cls (heap wa p))) (priv_size (cls (heap wa p))))
           (torn_down (heap wa p))"
    by blast
  from pr have pr': "priv (heap w' p) =
         clear_by (hit 0 (params (cls (heap w p))) (priv_size (cls (heap w p)))) (torn_down nd)"
    unfolding h k .
  have "clean (params (cls (heap w p))) (priv_size (cls (heap w p))) (priv (heap w' p))"
    unfolding pr' by (rule hit_clean)
  moreover have "priv (heap w' p) =
            clear_uncovered (params (cls (heap w p))) (priv_size (cls (heap w p)))
              (torn_down nd)"
    if "laid_out 0 (params (cls (heap w p))) (priv_size (cls (heap w p)))"
    unfolding pr' clear_uncovered_def using that by (rule hit_laid_out)
  ultimately show ?thesis using u unfolding h la wa_def [symmetric] by simp
qed

text \<open>
  C7, as the code has it. For an attached node in state INITIALIZED or READY and a key
  that \<open>ngli_node_param_find\<close> finds, \<open>ngl_node_param_set\<close> and \<open>ngl_node_param_add\<close>
  return the status of the write and leave the node UNINITIALIZED. The log shows the
  order: the failure of the write when it failed, then \<open>RELEASE\<close> (a ready node of a
  class with the callback), then \<open>UNINIT\<close> (a class with the callback). Then
  \<open>reset_non_params\<close> has run: every byte and every field of the private block that
  lies outside the parameters of the table reads as zero, whatever the table; and for a
  table that is laid out in the block, the block is what the callbacks left with exactly
  those fields cleared, so the parameters keep their values. With a key that is not
  found, both functions return -1 and change nothing but the log.
\<close>

theorem param_change_forces_reinit:
  "(ngli_node_param_find (heap w p) k = Some pb \<longrightarrow> ctx (heap w p) \<noteq> None \<longrightarrow>
    (state (heap w p) = STATE_INITIALIZED \<or> state (heap w p) = STATE_READY) \<longrightarrow>
      (\<exists>rc nd w'.
            param_write set_base set_priv pb (heap w p) = (rc, nd)
          \<and> ngl_node_param_set set_base set_priv w p k = Inr (rc, w')
          \<and> state (heap w' p) = STATE_UNINITIALIZED
          \<and> log w' = log w @ (if rc < 0 then [LOG_SET_FAILED p k] else []) @ teardown_log p nd
          \<and> clean (params (cls (heap w p))) (priv_size (cls (heap w p))) (priv (heap w' p))
          \<and> (laid_out 0 (params (cls (heap w p))) (priv_size (cls (heap w p))) \<longrightarrow>
               priv (heap w' p) =
                 clear_uncovered (params (cls (heap w p))) (priv_size (cls (heap w p)))
                   (torn_down nd)))
    \<and> (\<exists>rc nd w'.
            param_write add_base add_priv pb (heap w p) = (rc, nd)
          \<and> ngl_node_param_add add_base add_priv w p k = Inr (rc, w')
          \<and> state (heap w' p) = STATE_UNINITIALIZED
          \<and> log w' = log w @ (if rc < 0 then [LOG_ADD_FAILED p k] else []) @ teardown_log p nd
          \<and> clean (params (cls (heap w p))) (priv_size (cls (heap w p))) (priv (heap w' p))
          \<and> (laid_out 0 (params (cls (heap w p))) (priv_size (cls (heap w p))) \<longrightarrow>
               priv (heap w' p) =
                 clear_uncovered (params (cls (heap w p))) (priv_size (cls (heap w p)))
                   (torn_down nd))))
   \<and> (ngli_node_param_find (heap w p) k = None \<longrightarrow>
        ngl_node_param_set set_base set_priv w p k = Inr (- 1, LOG (LOG_PARAM_NOT_FOUND p k) w)
      \<and> ngl_node_param_add add_base add_priv w p k = Inr (- 1, LOG (LOG_PARAM_NOT_FOUND p k) w)
      \<and> heap (LOG (LOG_PARAM_NOT_FOUND p k) w) = heap w)"
proof (intro conjI impI)
  assume found: "ngli_node_param_find (heap w p) k = Some pb"
    and att: "ctx (heap w p) \<noteq> None"
    and st: "state (heap w p) = STATE_INITIALIZED \<or> state (heap w p) = STATE_READY"
  obtain rc nd where wr: "param_write set_base set_priv pb (heap w p) = (rc, nd)"
    by (cases "param_write set_base set_priv pb (heap w p)")
  from param_change_ok [OF att st wr, of "LOG_SET_FAILED p k"] obtain w' where
    u: "node_uninit (if rc < 0 then LOG (LOG_SET_FAILED p k) (upd w p (\<lambda>x. nd))
                     else upd w p (\<lambda>x. nd)) p = Inr w'"
    and r: "state (heap w' p) = STATE_UNINITIALIZED"
      "log w' = log w @ (if rc < 0 then [LOG_SET_FAILED p k] else []) @ teardown_log p nd"
      "clean (params (cls (heap w p))) (priv_size (cls (heap w p))) (priv (heap w' p))"
      "laid_out 0 (params (cls (heap w p))) (priv_size (cls (heap w p))) \<longrightarrow>
          priv (heap w' p) =
            clear_uncovered (params (cls (heap w p))) (priv_size (cls (heap w p)))
              (torn_down nd)"
    by blast
  from found wr u have "ngl_node_param_set set_base set_priv w p k = Inr (rc, w')"
    by (simp add: ngl_node_param_set_def)
  with wr r show "\<exists>rc nd w'.
            param_write set_base set_priv pb (heap w p) = (rc, nd)
          \<and> ngl_node_param_set set_base set_priv w p k = Inr (rc, w')
          \<and> state (heap w' p) = STATE_UNINITIALIZED
          \<and> log w' = log w @ (if rc < 0 then [LOG_SET_FAILED p k] else []) @ teardown_log p nd
          \<and> clean (params (cls (heap w p))) (priv_size (cls (heap w p))) (priv (heap w' p))
          \<and> (laid_out 0 (params (cls (heap w p))) (priv_size (cls (heap w p))) \<longrightarrow>
               priv (heap w' p) =
                 clear_uncovered (params (cls (heap w p))) (priv_size (cls (heap w p)))
                   (torn_down nd))"
    by blast
next
  assume found: "ngli_node_param_find (heap w p) k = Some pb"
    and att: "ctx (heap w p) \<noteq> None"
    and st: "state (heap w p) = STATE_INITIALIZED \<or> state (heap w p) = STATE_READY"
  obtain rc nd where wr: "param_write add_base add_priv pb (heap w p) = (rc, nd)"
    by (cases "param_write add_base add_priv pb (heap w p)")
  from param_change_ok [OF att st wr, of "LOG_ADD_FAILED p k"] obtain w' where
    u: "node_uninit (if rc < 0 then LOG (LOG_ADD_FAILED p k) (upd w p (\<lambda>x. nd))
                     else upd w p (\<lambda>x. nd)) p = Inr w'"
    and r: "state (heap w' p) = STATE_UNINITIALIZED"
      "log w' = log w @ (if rc < 0 then [LOG_ADD_FAILED p k] else []) @ teardown_log p nd"
      "clean (params (cls (heap w p))) (priv_size (cls (heap w p))) (priv (heap w' p))"
      "laid_out 0 (params (cls (heap w p))) (priv_size (cls (heap w p))) \<longrightarrow>
          priv (heap w' p) =
            clear_uncovered (params (cls (heap w p))) (priv_size (cls (heap w p)))
              (torn_down nd)"
    by blast
  from found wr u have "ngl_node_param_add add_base add_priv w p k = Inr (rc, w')"
    by (simp add: ngl_node_param_add_def)
  with wr r show "\<exists>rc nd w'.
            param_write add_base add_priv pb (heap w p) = (rc, nd)
          \<and> ngl_node_param_add add_base add_priv w p k = Inr (rc, w')
          \<and> state (heap w' p) = STATE_UNINITIALIZED
          \<and> log w' = log w @ (if rc < 0 then [LOG_ADD_FAILED p k] else []) @ teardown_log p nd
          \<and> clean (params (cls (heap w p))) (priv_size (cls (heap w p))) (priv (heap w' p))
          \<and> (laid_out 0 (params (cls (heap w p))) (priv_size (cls (heap w p))) \<longrightarrow>
               priv (heap w' p) =
                 clear_uncovered (params (cls (heap w p))) (priv_size (cls (heap w p)))
                   (torn_down nd))"
    by blast
next
  assume "ngli_node_param_find (heap w p) k = None"
  then show "ngl_node_param_set set_base set_priv w p k
      = Inr (- 1, LOG (LOG_PARAM_NOT_FOUND p k) w)"
    by (simp add: ngl_node_param_set_def)
next
  assume "ngli_node_param_find (heap w p) k = None"
  then show "ngl_node_param_add add_base add_priv w p k
      = Inr (- 1, LOG (LOG_PARAM_NOT_FOUND p k) w)"
    by (simp add: ngl_node_param_add_def)
next
  show "heap (LOG (LOG_PARAM_NOT_FOUND p k) w) = heap w" by simp
qed


text \<open>
  The theorem of C7 on a ready node whose block of 32 bytes is full of stale values, in
  every reading of the block: what lies outside the two parameters ends as zero, the
  parameters stay. With the key \<open>nope\<close>, which the node does not have, nothing happens.
\<close>

theorem param_change_forces_reinit_witness:
  "ngli_node_param_find (heap stale_scene 0) ''a''
     = Some (\<lparr>key = ''a'', par_type = PARAM_TYPE_INT, offset = 4\<rparr>, False)
   \<and> ctx (heap stale_scene 0) \<noteq> None
   \<and> state (heap stale_scene 0) = STATE_READY
   \<and> laid_out 0 (params (cls (heap stale_scene 0))) (priv_size (cls (heap stale_scene 0)))
   \<and> (\<exists>rc w'. ngl_node_param_set keep_base keep_priv stale_scene 0 ''a'' = Inr (rc, w')
          \<and> state (heap w' 0) = STATE_UNINITIALIZED
          \<and> log w' = [LOG_RELEASE 0, LOG_UNINIT 0]
          \<and> bytes (priv (heap w' 0)) 3 = 0 \<and> bytes (priv (heap w' 0)) 4 = 255
          \<and> bytes (priv (heap w' 0)) 8 = 0 \<and> bytes (priv (heap w' 0)) 31 = 0
          \<and> ints (priv (heap w' 0)) 24 = 0 \<and> ints (priv (heap w' 0)) 4 = 7
          \<and> ints (priv (heap w' 0)) 8 = 0
          \<and> node_at (flds (priv (heap w' 0))) 8 = None
          \<and> node_at (flds (priv (heap w' 0))) 16 = Some 9
          \<and> nodedict_at (flds (priv (heap w' 0))) 24 = None)
   \<and> (\<exists>rc w'. ngl_node_param_add keep_base keep_priv stale_scene 0 ''a'' = Inr (rc, w')
          \<and> state (heap w' 0) = STATE_UNINITIALIZED)
   \<and> ngli_node_param_find (heap stale_scene 0) ''nope'' = None
   \<and> ngl_node_param_set keep_base keep_priv stale_scene 0 ''nope''
       = Inr (- 1, LOG (LOG_PARAM_NOT_FOUND 0 ''nope'') stale_scene)
   \<and> ngl_node_param_add keep_base keep_priv stale_scene 0 ''nope''
       = Inr (- 1, LOG (LOG_PARAM_NOT_FOUND 0 ''nope'') stale_scene)"
proof -
  have f: "ngli_node_param_find (heap stale_scene 0) ''a''
     = Some (\<lparr>key = ''a'', par_type = PARAM_TYPE_INT, offset = 4\<rparr>, False)"
    by (simp add: ngli_node_param_find_def ngli_params_find_def ngli_base_node_params_def
        stale_scene_def gap_class_def ex_defs)
  have nf: "ngli_node_param_find (heap stale_scene 0) ''nope'' = None"
    by (simp add: ngli_node_param_find_def ngli_params_find_def ngli_base_node_params_def
        stale_scene_def gap_class_def ex_defs)
  have a: "ctx (heap stale_scene 0) \<noteq> None"
    and s: "state (heap stale_scene 0) = STATE_READY"
    and l: "laid_out 0 (params (cls (heap stale_scene 0))) (priv_size (cls (heap stale_scene 0)))"
    by (simp_all add: stale_scene_def gap_class_def ex_defs)
  from s have s': "state (heap stale_scene 0) = STATE_INITIALIZED
      \<or> state (heap stale_scene 0) = STATE_READY" by simp
  have w: "param_write keep_base keep_priv
      (\<lparr>key = ''a'', par_type = PARAM_TYPE_INT, offset = 4\<rparr>, False) (heap stale_scene 0)
      = (0, heap stale_scene 0)"
    by (simp add: param_write_def keep_priv_def)
  have tl: "teardown_log 0 (heap stale_scene 0) = [LOG_RELEASE 0, LOG_UNINIT 0]"
    by (simp add: teardown_log_def stale_scene_def gap_class_def ex_defs)
  have td: "torn_down (heap stale_scene 0) = stale_priv"
    by (simp add: torn_down_def call_opt_def stale_scene_def gap_class_def ex_defs)
  have ps: "params (cls (heap stale_scene 0)) =
      [\<lparr>key = ''a'', par_type = PARAM_TYPE_INT, offset = 4\<rparr>,
       \<lparr>key = ''child'', par_type = PARAM_TYPE_NODE, offset = 16\<rparr>]"
    "priv_size (cls (heap stale_scene 0)) = 32" "log stale_scene = []"
    by (simp_all add: stale_scene_def gap_class_def ex_defs)
  note t = param_change_forces_reinit [where w = stale_scene and p = 0 and k = "''a''"
      and set_base = keep_base and set_priv = keep_priv and add_base = keep_base
      and add_priv = keep_priv, THEN conjunct1, rule_format, OF f a s']
  from t [THEN conjunct1] l obtain rc w' where
    r: "ngl_node_param_set keep_base keep_priv stale_scene 0 ''a'' = Inr (rc, w')"
      "state (heap w' 0) = STATE_UNINITIALIZED"
    and lg: "log w' = log stale_scene @ (if rc < 0 then [LOG_SET_FAILED 0 ''a''] else [])
               @ teardown_log 0 (heap stale_scene 0)"
    and rc: "rc = 0"
    and pr: "priv (heap w' 0) =
               clear_uncovered (params (cls (heap stale_scene 0)))
                 (priv_size (cls (heap stale_scene 0))) (torn_down (heap stale_scene 0))"
    unfolding w by auto
  from lg rc tl ps have lg': "log w' = [LOG_RELEASE 0, LOG_UNINIT 0]" by simp
  have b: "bytes (priv (heap w' 0)) 3 = 0" "bytes (priv (heap w' 0)) 4 = 255"
    "bytes (priv (heap w' 0)) 8 = 0" "bytes (priv (heap w' 0)) 31 = 0"
    "ints (priv (heap w' 0)) 24 = 0" "ints (priv (heap w' 0)) 4 = 7"
    "ints (priv (heap w' 0)) 8 = 0"
    "node_at (flds (priv (heap w' 0))) 8 = None"
    "node_at (flds (priv (heap w' 0))) 16 = Some 9"
    "nodedict_at (flds (priv (heap w' 0))) 24 = None"
    unfolding pr td ps
    by (simp_all add: clear_uncovered_def clear_by_def uncovered_def covered_def stale_priv_def
        upt_rec_numeral)
  from t [THEN conjunct2] obtain rc2 w2 where
    r2: "ngl_node_param_add keep_base keep_priv stale_scene 0 ''a'' = Inr (rc2, w2)"
      "state (heap w2 0) = STATE_UNINITIALIZED"
    by blast
  note u = param_change_forces_reinit [where w = stale_scene and p = 0 and k = "''nope''"
      and set_base = keep_base and set_priv = keep_priv and add_base = keep_base
      and add_priv = keep_priv, THEN conjunct2, rule_format, OF nf]
  from f a s l r lg' b r2 nf u show ?thesis by blast
qed

text \<open>
  C7 as stated is for every call. With a key the node does not have, both functions
  return -1 before \<open>node_uninit\<close>, and the READY node stays READY.
\<close>

theorem param_set_unknown_key:
  "ctx (heap stale_scene 0) \<noteq> None
   \<and> state (heap stale_scene 0) = STATE_READY
   \<and> ngl_node_param_set keep_base keep_priv stale_scene 0 ''nope''
       = Inr (- 1, LOG (LOG_PARAM_NOT_FOUND 0 ''nope'') stale_scene)
   \<and> state (heap (LOG (LOG_PARAM_NOT_FOUND 0 ''nope'') stale_scene) 0) = STATE_READY
   \<and> ngl_node_param_add keep_base keep_priv stale_scene 0 ''nope''
       = Inr (- 1, LOG (LOG_PARAM_NOT_FOUND 0 ''nope'') stale_scene)"
  by (simp add: ngl_node_param_set_def ngl_node_param_add_def ngli_node_param_find_def
      ngli_params_find_def ngli_base_node_params_def stale_scene_def
      gap_class_def ex_defs)



subsection \<open>Reference counting\<close>

lemma sint_succ:
  fixes x :: "32 word"
  assumes "sint x < 2147483647"
  shows "sint (x + 1) = sint x + 1"
proof -
  have "sint (x + 1) = signed_take_bit 31 (sint x + 1)"
    using sint_word_add [of x 1] by simp
  moreover have "- (2 ^ 31) \<le> sint x + 1" using sint_ge [of x] by simp
  moreover have "sint x + 1 < 2 ^ 31" using assms by simp
  ultimately show ?thesis by (simp only: signed_take_bit_int_eq_self)
qed

lemma sint_pred:
  fixes x :: "32 word"
  assumes "- 2147483648 < sint x"
  shows "sint (x - 1) = sint x - 1"
proof -
  have "sint (x - 1) = signed_take_bit 31 (sint x - 1)"
    using sint_word_diff [of x 1] by simp
  moreover have "- (2 ^ 31) \<le> sint x - 1" using assms by simp
  moreover have "sint x - 1 < 2 ^ 31" using sint_lt [of x] by simp
  ultimately show ?thesis by (simp only: signed_take_bit_int_eq_self)
qed

text \<open>
  C9, as the code has it. \<open>ngl_node_ref\<close> returns the node and adds one to the count in
  the arithmetic of \<open>int\<close>: the count is one more when it was below \<open>INT_MAX\<close>.
  \<open>ngl_node_unrefp\<close> on a null pointer does nothing. On a node whose count is not 1 it
  takes one from the count (the count is one less when it was above \<open>INT_MIN\<close>), frees
  nothing and sets the pointer to null. On a node whose count is 1 it aborts on the
  assertion when the node still has a context; otherwise it frees the node, last, and
  sets the pointer to null.
\<close>

theorem ngl_node_ref_unrefp:
  "snd (ngl_node_ref w p) = p
   \<and> refcount (heap (fst (ngl_node_ref w p)) p) = refcount (heap w p) + 1
   \<and> (sint (refcount (heap w p)) < 2147483647 \<longrightarrow>
        sint (refcount (heap (fst (ngl_node_ref w p)) p)) = sint (refcount (heap w p)) + 1)
   \<and> ngl_node_unrefp params_free w None = Inr (w, None)
   \<and> (refcount (heap w p) \<noteq> 1 \<longrightarrow>
        ngl_node_unrefp params_free w (Some p)
          = Inr (upd w p (\<lambda>nd. nd\<lparr>refcount := refcount nd - 1\<rparr>), None)
      \<and> freed (upd w p (\<lambda>nd. nd\<lparr>refcount := refcount nd - 1\<rparr>)) = freed w
      \<and> (- 2147483648 < sint (refcount (heap w p)) \<longrightarrow>
           sint (refcount (heap (upd w p (\<lambda>nd. nd\<lparr>refcount := refcount nd - 1\<rparr>)) p))
             = sint (refcount (heap w p)) - 1))
   \<and> (refcount (heap w p) = 1 \<longrightarrow> ctx (heap w p) \<noteq> None \<longrightarrow>
        ngl_node_unrefp params_free w (Some p) = Inl AssertionFailed)
   \<and> (refcount (heap w p) = 1 \<longrightarrow> ctx (heap w p) = None \<longrightarrow>
        (\<exists>w'. ngl_node_unrefp params_free w (Some p) = Inr (w', None)
            \<and> p \<in> set (freed w') \<and> last (freed w') = p))"
  by (simp add: ngl_node_ref_def ngl_node_unrefp_def Let_def sint_succ sint_pred)

text \<open>
  The theorem of C9: a node referenced twice survives one unref and is back at one
  reference, an attached node with one reference trips the assertion, a detached node
  with one reference is freed.
\<close>

theorem ngl_node_ref_unrefp_witness:
  "sint (refcount (heap fresh_scene 0)) < 2147483647
   \<and> sint (refcount (heap (fst (ngl_node_ref fresh_scene 0)) 0)) = 2
   \<and> refcount (heap (fst (ngl_node_ref fresh_scene 0)) 0) \<noteq> 1
   \<and> - 2147483648 < sint (refcount (heap (fst (ngl_node_ref fresh_scene 0)) 0))
   \<and> ngl_node_unrefp keep_params (fst (ngl_node_ref fresh_scene 0)) (Some 0)
       = Inr (upd (fst (ngl_node_ref fresh_scene 0)) 0 (\<lambda>nd. nd\<lparr>refcount := refcount nd - 1\<rparr>), None)
   \<and> freed (upd (fst (ngl_node_ref fresh_scene 0)) 0 (\<lambda>nd. nd\<lparr>refcount := refcount nd - 1\<rparr>)) = []
   \<and> sint (refcount (heap (upd (fst (ngl_node_ref fresh_scene 0)) 0
         (\<lambda>nd. nd\<lparr>refcount := refcount nd - 1\<rparr>)) 0)) = 1
   \<and> refcount (heap ex6_w 0) = 1 \<and> ctx (heap ex6_w 0) \<noteq> None
   \<and> ngl_node_unrefp keep_params ex6_w (Some 0) = Inl AssertionFailed
   \<and> refcount (heap fresh_scene 0) = 1 \<and> ctx (heap fresh_scene 0) = None
   \<and> (\<exists>w'. ngl_node_unrefp keep_params fresh_scene (Some 0) = Inr (w', None)
            \<and> 0 \<in> set (freed w') \<and> last (freed w') = 0)"
proof -
  have r0: "sint (refcount (heap fresh_scene 0)) = 1"
    by (simp add: fresh_scene_def ex_defs)
  then have lt: "sint (refcount (heap fresh_scene 0)) < 2147483647" by simp
  have f: "freed (fst (ngl_node_ref fresh_scene 0)) = []"
    by (simp add: ngl_node_ref_def fresh_scene_def ex_defs)
  have b: "refcount (heap ex6_w 0) = 1" "ctx (heap ex6_w 0) \<noteq> None"
    by (simp_all add: ex6_w_def ex_defs)
  have c: "refcount (heap fresh_scene 0) = 1" "ctx (heap fresh_scene 0) = None"
    by (simp_all add: fresh_scene_def ex_defs)
  note t0 = ngl_node_ref_unrefp [where w = fresh_scene and p = 0 and params_free = keep_params]
  from t0 lt have "sint (refcount (heap (fst (ngl_node_ref fresh_scene 0)) 0))
      = sint (refcount (heap fresh_scene 0)) + 1" by blast
  with r0 have two: "sint (refcount (heap (fst (ngl_node_ref fresh_scene 0)) 0)) = 2"
    by simp
  then have a: "refcount (heap (fst (ngl_node_ref fresh_scene 0)) 0) \<noteq> 1"
    and gt: "- 2147483648 < sint (refcount (heap (fst (ngl_node_ref fresh_scene 0)) 0))"
    by auto
  note t1 = ngl_node_ref_unrefp [where w = "fst (ngl_node_ref fresh_scene 0)" and p = 0
      and params_free = keep_params]
  note t2 = ngl_node_ref_unrefp [where w = ex6_w and p = 0 and params_free = keep_params]
  from t1 a f have r1: "ngl_node_unrefp keep_params (fst (ngl_node_ref fresh_scene 0)) (Some 0)
       = Inr (upd (fst (ngl_node_ref fresh_scene 0)) 0 (\<lambda>nd. nd\<lparr>refcount := refcount nd - 1\<rparr>), None)"
    "freed (upd (fst (ngl_node_ref fresh_scene 0)) 0 (\<lambda>nd. nd\<lparr>refcount := refcount nd - 1\<rparr>)) = []"
    by simp_all
  from t1 a gt have "sint (refcount (heap (upd (fst (ngl_node_ref fresh_scene 0)) 0
         (\<lambda>nd. nd\<lparr>refcount := refcount nd - 1\<rparr>)) 0))
      = sint (refcount (heap (fst (ngl_node_ref fresh_scene 0)) 0)) - 1" by blast
  with two have one: "sint (refcount (heap (upd (fst (ngl_node_ref fresh_scene 0)) 0
         (\<lambda>nd. nd\<lparr>refcount := refcount nd - 1\<rparr>)) 0)) = 1"
    by simp
  from t2 b have r2: "ngl_node_unrefp keep_params ex6_w (Some 0) = Inl AssertionFailed"
    by blast
  from t0 c have r3: "\<exists>w'. ngl_node_unrefp keep_params fresh_scene (Some 0) = Inr (w', None)
            \<and> 0 \<in> set (freed w') \<and> last (freed w') = 0"
    by blast
  from lt two a gt r1 one b r2 c r3 show ?thesis by blast
qed

text \<open>
  C9 as stated is for every node. On a node whose count is \<open>INT_MAX\<close> the increment of
  \<open>ngl_node_ref\<close> overflows the \<open>int\<close>: C leaves the result undefined, and on the two's
  complement machines the engine runs on the count becomes \<open>INT_MIN\<close>. It is not one
  more.
\<close>

theorem ngl_node_ref_at_INT_MAX:
  "sint (refcount (heap full_scene 0)) = 2147483647
   \<and> sint (refcount (heap (fst (ngl_node_ref full_scene 0)) 0)) = - 2147483648
   \<and> sint (refcount (heap (fst (ngl_node_ref full_scene 0)) 0))
       \<noteq> sint (refcount (heap full_scene 0)) + 1"
  by (simp add: ngl_node_ref_def full_scene_def ex_defs)


subsection \<open>Size rounding\<close>













subsection \<open>Context attachment\<close>











lemma case_ret:
  "(case ret rc w of None \<Rightarrow> a | Some x \<Rightarrow> f x) = f (Inr (rc, w))"
  by (simp add: ret_def)



lemma then_ok_Inr [simp]:
  "then_ok (Some (Inr (rc, w))) k = (if rc < 0 then Some (Inr (rc, w)) else k w)"
  by (simp add: then_ok_def)

lemma ret_inj [simp]: "(ret a w = ret b w') = (a = b \<and> w = w')"
  by (simp add: ret_def)
















lemma two_attached_facts:
  "status_of (ngli_node_attach_ctx 2 two_scenes 3 (Some 2)) = Some 0
   \<and> status_of (ngli_node_attach_ctx 2
        (world_of (ngli_node_attach_ctx 2 two_scenes 3 (Some 2))) 0 (Some 1)) = Some 0
   \<and> ctx (heap two_attached 0) = Some 1 \<and> ctx (heap two_attached 3) = Some 2"
  by (simp add: two_attached_def two_scenes_def ngli_node_attach_ctx_def
      node_set_children_ctx_def case_ret ngli_base_node_params_def base_fields_def
      wrap_class_def zero_priv_def ex_defs eval_nat_numeral)




subsection \<open>Pipeline state around a draw\<close>

lemmas gl_defs = glIsEnabledv_def glEnable_def glDisable_def glBlendFuncSeparate_def
  glBlendEquationSeparate_def blend_factor_def blend_mode_def

lemmas glstate_defs = glstate_at_def put_glstate_def pair_at_def put_pair_def quad_at_def
  put_quad_def

lemma glstate_at_put: "glstate_at (put_glstate s m) = s"
  by (cases s) (auto simp add: glstate_defs split: prod.splits)

lemma world_after_InrD: "isr r \<Longrightarrow> r = Inr (world_after r)"
  by (cases r) (simp_all add: world_after_def isr_def)

text \<open>
  C1 does not hold of the code. Blending is enabled, with the functions
  \<open>GL_SRC_ALPHA\<close> (770) and \<open>GL_ONE_MINUS_SRC_ALPHA\<close> (771), when node 0 is drawn under an
  override that disables it. \<open>ngli_honor_glstates\<close> saves the enable flag, but saves the
  blend functions only under \<^verbatim>\<open>if (st->enabled[0])\<close>, which this override does not pass.
  \<open>ngli_restore_glstates\<close> finds the saved flag set, enables blending again and sets the
  blend functions from the fields \<open>src_rgb[1]\<close> ... that were never written: after
  \<open>ngli_node_draw\<close> the functions are \<open>GL_ZERO\<close>, not what they were before the call, and
  they stay so when the outer override is restored.
\<close>

theorem draw_leaks_blend_functions:
  "ngli_honor_glstates blend_scene (Some 1) [6] = Inr blend_outer
   \<and> caps (gl blend_outer) GL_BLEND
   \<and> blend_src_rgb (gl blend_outer) = 770 \<and> blend_dst_rgb (gl blend_outer) = 771
   \<and> blend_src_alpha (gl blend_outer) = 1 \<and> blend_dst_alpha (gl blend_outer) = 771
   \<and> ctx (heap blend_outer 0) = Some 1 \<and> glstates (heap blend_outer 0) = [5]
   \<and> class_id (cls (heap blend_outer 5)) = NGL_NODE_GLBLENDSTATE
   \<and> fst (enabled (glstate_at (ints (priv (heap blend_outer 5))))) = 0
   \<and> ngli_node_draw blend_outer 0 = Inr blend_drawn
   \<and> caps (gl blend_drawn) GL_BLEND
   \<and> blend_src_rgb (gl blend_drawn) = 0 \<and> blend_dst_rgb (gl blend_drawn) = 0
   \<and> blend_src_alpha (gl blend_drawn) = 0 \<and> blend_dst_alpha (gl blend_drawn) = 0
   \<and> gl blend_drawn \<noteq> gl blend_outer
   \<and> ngli_restore_glstates blend_drawn (Some 1) [6] = Inr blend_final
   \<and> blend_src_rgb (gl blend_scene) = 1 \<and> blend_dst_rgb (gl blend_scene) = 0
   \<and> blend_src_rgb (gl blend_final) = 0 \<and> blend_dst_rgb (gl blend_final) = 0"
proof -
  have o: "ngli_honor_glstates blend_scene (Some 1) [6] = Inr blend_outer"
    by (simp add: blend_outer_def world_after_def ngli_honor_glstates_def)
  have g1: "caps (gl blend_outer) GL_BLEND
   \<and> blend_src_rgb (gl blend_outer) = 770 \<and> blend_dst_rgb (gl blend_outer) = 771
   \<and> blend_src_alpha (gl blend_outer) = 1 \<and> blend_dst_alpha (gl blend_outer) = 771
   \<and> ctx (heap blend_outer 0) = Some 1 \<and> glstates (heap blend_outer 0) = [5]
   \<and> class_id (cls (heap blend_outer 5)) = NGL_NODE_GLBLENDSTATE
   \<and> fst (enabled (glstate_at (ints (priv (heap blend_outer 5))))) = 0"
    by (simp add: blend_outer_def world_after_def ngli_honor_glstates_def blend_scene_def
        blend_node_def blend_class_def draw_class_def honor_glstate_def gl_defs glstate_at_put
        GL_BLEND_def gl0_def NGL_NODE_GLBLENDSTATE_def zero_priv_def ex_defs)
  have d: "ngli_node_draw blend_outer 0 = Inr blend_drawn"
    unfolding blend_drawn_def
    by (rule world_after_InrD)
      (simp add: isr_def world_after_def ngli_node_draw_def ngli_honor_glstates_def
        ngli_restore_glstates_def blend_outer_def blend_scene_def
        blend_node_def blend_class_def draw_class_def ex_defs split: prod.splits)
  have g2: "caps (gl blend_drawn) GL_BLEND
   \<and> blend_src_rgb (gl blend_drawn) = 0 \<and> blend_dst_rgb (gl blend_drawn) = 0
   \<and> blend_src_alpha (gl blend_drawn) = 0 \<and> blend_dst_alpha (gl blend_drawn) = 0"
    by (simp add: blend_drawn_def world_after_def ngli_node_draw_def ngli_honor_glstates_def
        ngli_restore_glstates_def blend_outer_def blend_scene_def
        blend_node_def blend_class_def draw_class_def honor_glstate_def restore_glstate_def
        gl_defs glstate_at_put
        GL_BLEND_def gl0_def NGL_NODE_GLBLENDSTATE_def zero_priv_def ex_defs)
  from g1 g2 have "blend_src_rgb (gl blend_drawn) \<noteq> blend_src_rgb (gl blend_outer)" by simp
  then have "gl blend_drawn \<noteq> gl blend_outer" by auto
  moreover have "ngli_restore_glstates blend_drawn (Some 1) [6] = Inr blend_final"
    by (simp add: blend_final_def world_after_def ngli_restore_glstates_def)
  moreover have "blend_src_rgb (gl blend_scene) = 1 \<and> blend_dst_rgb (gl blend_scene) = 0"
    by (simp add: blend_scene_def gl0_def ex_defs)
  moreover have "blend_src_rgb (gl blend_final) = 0 \<and> blend_dst_rgb (gl blend_final) = 0"
    by (simp add: blend_final_def blend_drawn_def world_after_def ngli_node_draw_def
        ngli_honor_glstates_def
        ngli_restore_glstates_def blend_outer_def blend_scene_def
        blend_node_def blend_class_def draw_class_def honor_glstate_def restore_glstate_def
        gl_defs glstate_at_put
        GL_BLEND_def gl0_def NGL_NODE_GLBLENDSTATE_def zero_priv_def ex_defs)
  ultimately show ?thesis using o g1 d g2 by blast
qed


end
